theory Spec2Isabelle
  imports Main
begin

section \<open>Python values used by the program\<close>

text \<open>
  A Python \<^verbatim>\<open>str\<close> whose code points are all below 256 is modelled as a \<^typ>\<open>string\<close>
  (a list of 8-bit characters).  On such strings the regular-expression class \<^verbatim>\<open>\d\<close>
  matches exactly the ten characters \<^verbatim>\<open>0\<close> to \<^verbatim>\<open>9\<close>.  Exceptions are values of a sum
  type: \<open>Inl\<close> carries the exception that the call raises, \<open>Inr\<close> the value it returns.
\<close>

datatype error = OverflowError | ValueError | HttpError

definition is_digit :: "char \<Rightarrow> bool" where
  "is_digit c = (c \<in> set ''0123456789'')"

definition digit_value :: "char \<Rightarrow> int" where
  "digit_value c = of_char c - 48"

text \<open>
  \<^verbatim>\<open>int(ds)\<close> on a string of decimal digits, which is all the program passes to it.
  CPython refuses a digit string that is longer than 640 characters and longer than
  \<^verbatim>\<open>sys.get_int_max_str_digits()\<close> with a \<^verbatim>\<open>ValueError\<close>.  That limit is a setting of
  the interpreter (4300 by default, 0 when it is switched off or when the interpreter
  predates it), so it is a parameter of the model.
\<close>

definition int_of_digits :: "string \<Rightarrow> int" where
  "int_of_digits ds = foldl (\<lambda>a c. 10 * a + digit_value c) 0 ds"

definition int_accepts :: "nat \<Rightarrow> string \<Rightarrow> bool" where
  "int_accepts max_str_digits ds =
     (length ds \<le> 640 \<or> max_str_digits = 0 \<or> length ds \<le> max_str_digits)"

definition py_int :: "nat \<Rightarrow> string \<Rightarrow> error + int" where
  "py_int max_str_digits ds =
     (if int_accepts max_str_digits ds then Inr (int_of_digits ds) else Inl ValueError)"

text \<open>
  \<^verbatim>\<open>"%d" % n\<close> and the zero-padded \<^verbatim>\<open>"%02d" % n\<close>, \<^verbatim>\<open>"%06d" % n\<close>; the padded forms are
  only used on numbers that are not negative.
\<close>

definition digit_char :: "nat \<Rightarrow> char" where
  "digit_char n = ''0123456789'' ! n"

fun str_nat :: "nat \<Rightarrow> string" where
  "str_nat n = (if n < 10 then [digit_char n] else str_nat (n div 10) @ [digit_char (n mod 10)])"

declare str_nat.simps [simp del]

definition str_int :: "int \<Rightarrow> string" where
  "str_int i = (if i < 0 then CHR ''-'' # str_nat (nat (- i)) else str_nat (nat i))"

definition zero_pad :: "nat \<Rightarrow> int \<Rightarrow> string" where
  "zero_pad width i = replicate (width - length (str_int i)) CHR ''0'' @ str_int i"

text \<open>\<^verbatim>\<open>sep.join(xs)\<close>.\<close>

fun join :: "string \<Rightarrow> string list \<Rightarrow> string" where
  "join sep [] = []"
| "join sep [x] = x"
| "join sep (x # y # ys) = x @ sep @ join sep (y # ys)"

subsection \<open>datetime.timedelta\<close>

text \<open>
  A \<^verbatim>\<open>timedelta\<close> is a whole number of microseconds, kept by CPython as the normalised
  triple \<^verbatim>\<open>(days, seconds, microseconds)\<close> with \<^verbatim>\<open>0 <= seconds < 86400\<close> and
  \<^verbatim>\<open>0 <= microseconds < 1000000\<close>.  The model keeps the total and computes the three fields
  from it.  Every operation that builds a \<^verbatim>\<open>timedelta\<close> raises \<^verbatim>\<open>OverflowError\<close> when
  the number of days leaves the range \<^verbatim>\<open>-999999999 .. 999999999\<close>.
\<close>

datatype timedelta = Timedelta (total_us: int)

definition td_days :: "timedelta \<Rightarrow> int" where
  "td_days t = total_us t div 86400000000"

definition td_seconds :: "timedelta \<Rightarrow> int" where
  "td_seconds t = total_us t mod 86400000000 div 1000000"

definition td_microseconds :: "timedelta \<Rightarrow> int" where
  "td_microseconds t = total_us t mod 1000000"

definition td_min_us :: int where
  "td_min_us = - (999999999 * 86400000000)"

definition td_max_us :: int where
  "td_max_us = 999999999 * 86400000000 + 86399999999"

definition new_delta :: "int \<Rightarrow> error + timedelta" where
  "new_delta us =
     (if td_min_us \<le> us \<and> us \<le> td_max_us then Inr (Timedelta us) else Inl OverflowError)"

text \<open>\<^verbatim>\<open>timedelta(hours=h, minutes=m, seconds=s)\<close> on integers.\<close>

definition timedelta_hms :: "int \<Rightarrow> int \<Rightarrow> int \<Rightarrow> error + timedelta" where
  "timedelta_hms hours minutes seconds =
     new_delta ((hours * 3600 + minutes * 60 + seconds) * 1000000)"

text \<open>\<^verbatim>\<open>timedelta()\<close> and \<^verbatim>\<open>a + b\<close>.\<close>

definition td_zero :: timedelta where
  "td_zero = Timedelta 0"

definition td_add :: "timedelta \<Rightarrow> timedelta \<Rightarrow> error + timedelta" where
  "td_add a b = new_delta (total_us a + total_us b)"

text \<open>
  \<^verbatim>\<open>str(t)\<close>, which is also what an f-string inserts for \<^verbatim>\<open>{t}\<close>: \<^verbatim>\<open>H:MM:SS\<close>, behind
  \<^verbatim>\<open>N day, \<close> or \<^verbatim>\<open>N days, \<close> when the days are not zero, and before \<^verbatim>\<open>.UUUUUU\<close> when the
  microseconds are not zero.
\<close>

definition str_timedelta :: "timedelta \<Rightarrow> string" where
  "str_timedelta t =
     (let mm = td_seconds t div 60;
          ss = td_seconds t mod 60;
          hh = mm div 60;
          mm = mm mod 60;
          s = str_int hh @ '':'' @ zero_pad 2 mm @ '':'' @ zero_pad 2 ss;
          s = (if td_days t = 0 then s
               else str_int (td_days t) @ '' day''
                      @ (if \<bar>td_days t\<bar> = 1 then [] else ''s'') @ '', '' @ s)
      in if td_microseconds t = 0 then s else s @ ''.'' @ zero_pad 6 (td_microseconds t))"

section \<open>The duration patterns\<close>

text \<open>
  \<^verbatim>\<open>hours_pattern = re.compile(r"(\d+)H")\<close> and its two siblings differ in the designator
  only, so a pattern is modelled by its designator.  \<open>match_at\<close> is the attempt of the
  regular-expression engine at the start of \<open>s\<close>: the group \<^verbatim>\<open>\d+\<close> first takes every digit
  it can, and the engine gives digits back one at a time (down to one digit) until the
  designator follows.  \<open>pattern_search\<close> is \<^verbatim>\<open>pattern.search(s)\<close>, which tries every start
  position from the left; its result is \<^verbatim>\<open>group(1)\<close> of the match, or \<open>None\<close>.
\<close>

definition hours_pattern :: char where
  "hours_pattern = CHR ''H''"

definition minutes_pattern :: char where
  "minutes_pattern = CHR ''M''"

definition seconds_pattern :: char where
  "seconds_pattern = CHR ''S''"

fun backtrack :: "char \<Rightarrow> string \<Rightarrow> nat \<Rightarrow> string option" where
  "backtrack designator s 0 = None"
| "backtrack designator s (Suc k) =
     (if Suc k < length s \<and> s ! Suc k = designator then Some (take (Suc k) s)
      else backtrack designator s k)"

definition match_at :: "char \<Rightarrow> string \<Rightarrow> string option" where
  "match_at designator s = backtrack designator s (length (takeWhile is_digit s))"

fun pattern_search :: "char \<Rightarrow> string \<Rightarrow> string option" where
  "pattern_search designator [] = None"
| "pattern_search designator (c # cs) =
     (case match_at designator (c # cs) of
        Some g \<Rightarrow> Some g
      | None \<Rightarrow> pattern_search designator cs)"

section \<open>The program\<close>

record Item =
  title :: string
  url :: string
  duration :: timedelta

text \<open>
  A detail record of the API: \<^verbatim>\<open>item["snippet"]["title"]\<close> and
  \<^verbatim>\<open>item["contentDetails"]["duration"]\<close>.
\<close>

record video_detail =
  snippet_title :: string
  contentDetails_duration :: string

text \<open>
  The API client is outside the repository.  A handler is modelled by what its two
  \<^verbatim>\<open>execute()\<close> calls do: each takes the state \<open>'h\<close> of the remote service and the
  request, and gives the response or the exception it raises, and the next state.
\<close>

record playlist_request =
  part :: string
  playlistId :: string
  maxResults :: nat
  pageToken :: "string option"

record playlist_item =
  contentDetails_videoId :: string

record playlist_response =
  pl_items :: "playlist_item list"
  nextPageToken :: "string option"

record videos_request =
  videos_part :: string
  videos_id :: string

record videos_response =
  vid_items :: "video_detail list"

record 'h handler =
  playlistItems_list :: "'h \<Rightarrow> playlist_request \<Rightarrow> (error + playlist_response) \<times> 'h"
  videos_list :: "'h \<Rightarrow> videos_request \<Rightarrow> (error + videos_response) \<times> 'h"

text \<open>\<^verbatim>\<open>not nextPageToken\<close>: both \<^verbatim>\<open>None\<close> and the empty string are false.\<close>

definition falsy :: "string option \<Rightarrow> bool" where
  "falsy token = (case token of None \<Rightarrow> True | Some t \<Rightarrow> t = [])"

text \<open>
  The \<^verbatim>\<open>while True\<close> loop of \<^verbatim>\<open>get_video_ids\<close>, with the two variables it updates.  The
  loop does not end while the service keeps answering with a token, so the result is an
  option: \<open>None\<close> is the run that never returns.
\<close>

partial_function (option) video_ids_loop ::
  "'h handler \<Rightarrow> string \<Rightarrow> string list \<Rightarrow> string option \<Rightarrow> 'h
     \<Rightarrow> ((error + string list) \<times> 'h) option" where
  "video_ids_loop handler playlist_id video_ids token h =
     (case playlistItems_list handler h
             \<lparr>part = ''contentDetails'', playlistId = playlist_id, maxResults = 50,
                pageToken = token\<rparr> of
        (Inl e, h') \<Rightarrow> Some (Inl e, h')
      | (Inr pl_response, h') \<Rightarrow>
          (let video_ids' = video_ids @ map contentDetails_videoId (pl_items pl_response);
               token' = nextPageToken pl_response
           in if falsy token' then Some (Inr video_ids', h')
              else video_ids_loop handler playlist_id video_ids' token' h'))"

declare video_ids_loop.simps [code]

definition get_video_ids ::
  "'h handler \<Rightarrow> string \<Rightarrow> 'h \<Rightarrow> ((error + string list) \<times> 'h) option" where
  "get_video_ids handler playlist_id h = video_ids_loop handler playlist_id [] None h"

text \<open>\<^verbatim>\<open>get_video_details\<close> on a list of ids, which is how \<^verbatim>\<open>main\<close> calls it.\<close>

definition get_video_details ::
  "'h handler \<Rightarrow> string list \<Rightarrow> 'h \<Rightarrow> (error + video_detail list) \<times> 'h" where
  "get_video_details handler video_ids h =
     (case videos_list handler h
             \<lparr>videos_part = ''snippet,contentDetails'', videos_id = join '','' video_ids\<rparr> of
        (Inl e, h') \<Rightarrow> (Inl e, h')
      | (Inr vid_response, h') \<Rightarrow> (Inr (vid_items vid_response), h'))"

definition extract_duration :: "nat \<Rightarrow> video_detail \<Rightarrow> error + timedelta" where
  "extract_duration max_str_digits item =
     (let duration = contentDetails_duration item;
          hours = pattern_search hours_pattern duration;
          minutes = pattern_search minutes_pattern duration;
          seconds = pattern_search seconds_pattern duration
      in case (case hours of Some g \<Rightarrow> py_int max_str_digits g | None \<Rightarrow> Inr 0) of
           Inl e \<Rightarrow> Inl e
         | Inr hours \<Rightarrow>
             (case (case minutes of Some g \<Rightarrow> py_int max_str_digits g | None \<Rightarrow> Inr 0) of
                Inl e \<Rightarrow> Inl e
              | Inr minutes \<Rightarrow>
                  (case (case seconds of Some g \<Rightarrow> py_int max_str_digits g | None \<Rightarrow> Inr 0) of
                     Inl e \<Rightarrow> Inl e
                   | Inr seconds \<Rightarrow> timedelta_hms hours minutes seconds)))"

definition extract_title :: "video_detail \<Rightarrow> string" where
  "extract_title item = snippet_title item"

definition create_link :: "string \<Rightarrow> string" where
  "create_link video_id = ''https://www.youtube.com/watch?v='' @ video_id"

text \<open>
  \<^verbatim>\<open>sum([item.duration for item in items], timedelta())\<close> adds from the left, starting at
  \<^verbatim>\<open>timedelta()\<close>; the first addition that overflows ends it.
\<close>

fun sum_from :: "timedelta \<Rightarrow> timedelta list \<Rightarrow> error + timedelta" where
  "sum_from start [] = Inr start"
| "sum_from start (d # ds) =
     (case td_add start d of Inl e \<Rightarrow> Inl e | Inr acc \<Rightarrow> sum_from acc ds)"

definition get_total_duration :: "Item list \<Rightarrow> error + timedelta" where
  "get_total_duration items = sum_from td_zero (map duration items)"

definition create_item :: "nat \<Rightarrow> video_detail \<Rightarrow> string \<Rightarrow> error + Item" where
  "create_item max_str_digits item video_id =
     (case extract_duration max_str_digits item of
        Inl e \<Rightarrow> Inl e
      | Inr d \<Rightarrow> Inr \<lparr>title = extract_title item, url = create_link video_id, duration = d\<rparr>)"

text \<open>The row that the f-string of \<^verbatim>\<open>create_markdown_table\<close> builds, and the loop.\<close>

definition markdown_row :: "Item \<Rightarrow> string" where
  "markdown_row item =
     ''| ['' @ title item @ ''](''  @ url item @ '') | '' @ str_timedelta (duration item)
       @ '' |\<newline>''"

definition create_markdown_table :: "Item list \<Rightarrow> string" where
  "create_markdown_table items =
     foldl (\<lambda>table item. table @ markdown_row item)
       (''| Title | Duration |\<newline>'' @ ''| :--- | :---: |\<newline>'') items"

subsection \<open>main\<close>

record args =
  playlist :: string
  api_key :: "string option"
  format :: string
  include_total_duration :: bool

text \<open>
  The list comprehension over \<^verbatim>\<open>zip(video_details, video_ids)\<close>: the pairs are taken in
  order, and the first \<^verbatim>\<open>create_item\<close> that raises ends the comprehension.
\<close>

fun create_items :: "nat \<Rightarrow> (video_detail \<times> string) list \<Rightarrow> error + Item list" where
  "create_items max_str_digits [] = Inr []"
| "create_items max_str_digits ((item, video_id) # rest) =
     (case create_item max_str_digits item video_id of
        Inl e \<Rightarrow> Inl e
      | Inr it \<Rightarrow>
          (case create_items max_str_digits rest of
             Inl e \<Rightarrow> Inl e
           | Inr its \<Rightarrow> Inr (it # its)))"

definition assemble_items :: "nat \<Rightarrow> video_detail list \<Rightarrow> string list \<Rightarrow> error + Item list" where
  "assemble_items max_str_digits video_details video_ids =
     create_items max_str_digits (zip video_details video_ids)"

text \<open>The body of \<^verbatim>\<open>if args.include_total_duration\<close>.\<close>

definition append_total :: "Item list \<Rightarrow> error + Item list" where
  "append_total items =
     (case get_total_duration items of
        Inl e \<Rightarrow> Inl e
      | Inr t \<Rightarrow> Inr (items @ [\<lparr>title = ''Total Duration'', url = [], duration = t\<rparr>]))"

text \<open>
  What the two branches on \<^verbatim>\<open>args.format\<close> write to the standard output; \<^verbatim>\<open>print\<close> ends
  each text it writes with a newline.
\<close>

definition csv_row :: "Item \<Rightarrow> string" where
  "csv_row item =
     [CHR 0x22] @ title item @ [CHR 0x22] @ '','' @ url item @ '','' @ str_timedelta (duration item)"

definition print_csv :: "Item list \<Rightarrow> string" where
  "print_csv items =
     foldl (\<lambda>out item. out @ csv_row item @ ''\<newline>'') (''title,url,duration'' @ ''\<newline>'') items"

definition print_items :: "string \<Rightarrow> Item list \<Rightarrow> string" where
  "print_items fmt items =
     (if fmt = ''md'' then create_markdown_table items @ ''\<newline>''
      else if fmt = ''csv'' then print_csv items
      else [])"

text \<open>
  \<^verbatim>\<open>main\<close>, from the handler that \<^verbatim>\<open>get_api_handler(args.api_key)\<close> returned and the state
  of the service at that moment.  The result is what the run wrote to the standard output,
  or the exception that ended it; nothing is written before the last exception can occur.
\<close>

definition main ::
  "nat \<Rightarrow> 'h handler \<Rightarrow> 'h \<Rightarrow> args \<Rightarrow> ((error + string) \<times> 'h) option" where
  "main max_str_digits handler h args =
     (case get_video_ids handler (playlist args) h of
        None \<Rightarrow> None
      | Some (Inl e, h1) \<Rightarrow> Some (Inl e, h1)
      | Some (Inr video_ids, h1) \<Rightarrow>
          (case get_video_details handler video_ids h1 of
             (Inl e, h2) \<Rightarrow> Some (Inl e, h2)
           | (Inr video_details, h2) \<Rightarrow>
               (case assemble_items max_str_digits video_details video_ids of
                  Inl e \<Rightarrow> Some (Inl e, h2)
                | Inr items \<Rightarrow>
                    (case (if include_total_duration args then append_total items
                           else Inr items) of
                       Inl e \<Rightarrow> Some (Inl e, h2)
                     | Inr items \<Rightarrow> Some (Inr (print_items (format args) items), h2)))))"

section \<open>Notions of the specification\<close>

text \<open>
  The simplified duration grammar \<^verbatim>\<open>[nH][nM][nS]\<close>: each of the three components is absent
  or a non-empty string of digits followed by its designator, in this order.
\<close>

definition component :: "string option \<Rightarrow> char \<Rightarrow> string" where
  "component n designator = (case n of None \<Rightarrow> [] | Some ds \<Rightarrow> ds @ [designator])"

definition duration_string :: "string option \<Rightarrow> string option \<Rightarrow> string option \<Rightarrow> string" where
  "duration_string h m s = component h CHR ''H'' @ component m CHR ''M'' @ component s CHR ''S''"

definition is_number :: "string option \<Rightarrow> bool" where
  "is_number n = (case n of None \<Rightarrow> True | Some ds \<Rightarrow> ds \<noteq> [] \<and> list_all is_digit ds)"

definition number_value :: "string option \<Rightarrow> int" where
  "number_value n = (case n of None \<Rightarrow> 0 | Some ds \<Rightarrow> int_of_digits ds)"

definition number_accepted :: "nat \<Rightarrow> string option \<Rightarrow> bool" where
  "number_accepted max_str_digits n =
     (case n of None \<Rightarrow> True | Some ds \<Rightarrow> int_accepts max_str_digits ds)"

text \<open>The largest whole number of seconds that a \<^verbatim>\<open>timedelta\<close> holds.\<close>

definition td_max_seconds :: int where
  "td_max_seconds = 999999999 * 86400 + 86399"

text \<open>
  An occurrence of the pattern \<^verbatim>\<open>(\d+)X\<close> in \<open>s\<close>: at position \<open>i\<close> stands the non-empty
  digit string \<open>g\<close>, and the designator follows it.
\<close>

definition occurs_at :: "char \<Rightarrow> string \<Rightarrow> nat \<Rightarrow> string \<Rightarrow> bool" where
  "occurs_at designator s i g =
     (g \<noteq> [] \<and> list_all is_digit g \<and> take (length g + 1) (drop i s) = g @ [designator])"

text \<open>
  Reading a rendered duration back as \<^verbatim>\<open>H:MM:SS\<close>: digits for the hours, a colon, two
  digits, a colon, two digits, and nothing else; the result is the number of seconds.
\<close>

definition parse_hms :: "string \<Rightarrow> int option" where
  "parse_hms s =
     (let h = takeWhile is_digit s in
      case dropWhile is_digit s of
        [c1, m1, m2, c2, s1, s2] \<Rightarrow>
          if h \<noteq> [] \<and> c1 = CHR '':'' \<and> c2 = CHR '':'' \<and> list_all is_digit [m1, m2, s1, s2]
          then Some (int_of_digits h * 3600 + int_of_digits [m1, m2] * 60
                       + int_of_digits [s1, s2])
          else None
      | _ \<Rightarrow> None)"

text \<open>
  A service delivers the pages \<open>ps\<close> in order: asked for the playlist with \<open>token\<close> in
  state \<open>h\<close> it answers with the first page, asked with the token of that page it answers
  with the second, and so on; \<open>h'\<close> is its state after the last of these requests.
\<close>

fun serves ::
  "'h handler \<Rightarrow> string \<Rightarrow> 'h \<Rightarrow> string option \<Rightarrow> playlist_response list \<Rightarrow> 'h \<Rightarrow> bool" where
  "serves handler playlist_id h token [] h' = (h' = h)"
| "serves handler playlist_id h token (p # ps) h' =
     (case playlistItems_list handler h
             \<lparr>part = ''contentDetails'', playlistId = playlist_id, maxResults = 50,
                pageToken = token\<rparr> of
        (Inl e, h1) \<Rightarrow> False
      | (Inr r, h1) \<Rightarrow> r = p \<and> serves handler playlist_id h1 (nextPageToken p) ps h')"

text \<open>
  The end-to-end scenario of the specification: the playlist has the pages \<^verbatim>\<open>[v1, v2]\<close>
  (with a continuation token) and \<^verbatim>\<open>[v3]\<close> (without), and the three videos last
  \<^verbatim>\<open>PT1H\<close>, \<^verbatim>\<open>PT30M\<close> and \<^verbatim>\<open>PT45S\<close>.  The state of this service is the list of the page
  tokens it has been asked for.
\<close>

definition scenario_pages :: "playlist_response list" where
  "scenario_pages =
     [\<lparr>pl_items = [\<lparr>contentDetails_videoId = ''v1''\<rparr>, \<lparr>contentDetails_videoId = ''v2''\<rparr>],
        nextPageToken = Some ''page2''\<rparr>,
      \<lparr>pl_items = [\<lparr>contentDetails_videoId = ''v3''\<rparr>], nextPageToken = None\<rparr>]"

definition scenario_details :: "video_detail list" where
  "scenario_details =
     [\<lparr>snippet_title = ''T1'', contentDetails_duration = ''PT1H''\<rparr>,
      \<lparr>snippet_title = ''T2'', contentDetails_duration = ''PT30M''\<rparr>,
      \<lparr>snippet_title = ''T3'', contentDetails_duration = ''PT45S''\<rparr>]"

text \<open>The items that the scenario assembles.\<close>

definition scenario_items :: "Item list" where
  "scenario_items =
     [\<lparr>title = ''T1'', url = ''https://www.youtube.com/watch?v=v1'',
        duration = Timedelta 3600000000\<rparr>,
      \<lparr>title = ''T2'', url = ''https://www.youtube.com/watch?v=v2'',
        duration = Timedelta 1800000000\<rparr>,
      \<lparr>title = ''T3'', url = ''https://www.youtube.com/watch?v=v3'',
        duration = Timedelta 45000000\<rparr>]"

definition scenario_handler :: "(string option list) handler" where
  "scenario_handler =
     \<lparr>playlistItems_list = (\<lambda>asked request.
          (if pageToken request = None then Inr (scenario_pages ! 0)
           else if pageToken request = Some ''page2'' then Inr (scenario_pages ! 1)
           else Inl HttpError,
           asked @ [pageToken request])),
      videos_list = (\<lambda>asked request.
          (if videos_id request = ''v1,v2,v3'' then Inr \<lparr>vid_items = scenario_details\<rparr>
           else Inl HttpError,
           asked))\<rparr>"

definition scenario_args :: "string \<Rightarrow> bool \<Rightarrow> args" where
  "scenario_args fmt with_total =
     \<lparr>playlist = ''PL'', api_key = Some ''key'', format = fmt,
        include_total_duration = with_total\<rparr>"

section \<open>Searching a pattern\<close>

lemma backtrack_digits:
  assumes "\<not> is_digit d" "k \<le> length (takeWhile is_digit s)"
  shows "backtrack d s k =
           (if 0 < k \<and> k < length s \<and> s ! k = d then Some (take k s) else None)"
  using assms(2)
proof (induction k)
  case 0
  then show ?case by simp
next
  case (Suc k)
  have "k < length (takeWhile is_digit s)" using Suc.prems by simp
  then have "is_digit (s ! k)"
    by (metis nth_mem set_takeWhileD takeWhile_nth)
  with assms(1) have "s ! k \<noteq> d" by auto
  with Suc show ?case by simp
qed

lemma match_at_split:
  assumes "\<not> is_digit d" "\<forall>c\<in>set ds. is_digit c" "rest = [] \<or> \<not> is_digit (hd rest)"
  shows "match_at d (ds @ rest) =
           (if ds \<noteq> [] \<and> rest \<noteq> [] \<and> hd rest = d then Some ds else None)"
proof -
  have tw: "takeWhile is_digit (ds @ rest) = ds"
  proof (cases rest)
    case Nil
    then show ?thesis using assms(2) by simp
  next
    case (Cons r rs)
    then show ?thesis using assms(2,3) by (simp add: takeWhile_append2)
  qed
  have nth: "rest \<noteq> [] \<Longrightarrow> (ds @ rest) ! length ds = hd rest"
    by (simp add: nth_append hd_conv_nth)
  have "match_at d (ds @ rest) = backtrack d (ds @ rest) (length ds)"
    by (simp add: match_at_def tw)
  also have "\<dots> = (if 0 < length ds \<and> length ds < length (ds @ rest) \<and> (ds @ rest) ! length ds = d
                    then Some (take (length ds) (ds @ rest)) else None)"
    by (rule backtrack_digits[OF assms(1)]) (simp add: tw)
  also have "\<dots> = (if ds \<noteq> [] \<and> rest \<noteq> [] \<and> hd rest = d then Some ds else None)"
    using nth by (cases "rest = []") auto
  finally show ?thesis .
qed

lemma match_at_eq:
  assumes "\<not> is_digit d"
  shows "match_at d s =
           (if takeWhile is_digit s \<noteq> [] \<and> dropWhile is_digit s \<noteq> [] \<and> hd (dropWhile is_digit s) = d
            then Some (takeWhile is_digit s) else None)"
proof -
  have "\<forall>c\<in>set (takeWhile is_digit s). is_digit c"
    by (auto dest: set_takeWhileD)
  moreover have "dropWhile is_digit s = [] \<or> \<not> is_digit (hd (dropWhile is_digit s))"
    using hd_dropWhile by blast
  ultimately show ?thesis
    using match_at_split[OF assms, of "takeWhile is_digit s" "dropWhile is_digit s"] by simp
qed

lemma occurs_at_0:
  "occurs_at d s 0 g \<longleftrightarrow> g \<noteq> [] \<and> list_all is_digit g \<and> (\<exists>rest. s = g @ d # rest)"
proof -
  have "take (length g + 1) s = g @ [d] \<longleftrightarrow> (\<exists>rest. s = g @ d # rest)"
  proof
    assume a: "take (length g + 1) s = g @ [d]"
    have "s = take (length g + 1) s @ drop (length g + 1) s" by simp
    with a have "s = g @ d # drop (length g + 1) s" by simp
    then show "\<exists>rest. s = g @ d # rest" ..
  next
    assume "\<exists>rest. s = g @ d # rest"
    then show "take (length g + 1) s = g @ [d]" by auto
  qed
  then show ?thesis by (simp add: occurs_at_def)
qed

lemma match_at_occurs:
  assumes "\<not> is_digit d"
  shows "match_at d s = Some g \<longleftrightarrow> occurs_at d s 0 g"
proof
  assume m: "match_at d s = Some g"
  then have g: "g = takeWhile is_digit s" "g \<noteq> []" "dropWhile is_digit s \<noteq> []"
    "hd (dropWhile is_digit s) = d"
    by (auto simp: match_at_eq[OF assms] split: if_splits)
  have "s = g @ dropWhile is_digit s" using g(1) by simp
  also have "dropWhile is_digit s = d # tl (dropWhile is_digit s)"
    using g(3,4) by (cases "dropWhile is_digit s") auto
  finally have "\<exists>rest. s = g @ d # rest" by blast
  moreover have "list_all is_digit g"
    using g(1) by (auto simp: list_all_iff dest: set_takeWhileD)
  ultimately show "occurs_at d s 0 g" using g(2) by (simp add: occurs_at_0)
next
  assume "occurs_at d s 0 g"
  then obtain rest where "g \<noteq> []" "list_all is_digit g" "s = g @ d # rest"
    by (auto simp: occurs_at_0)
  then show "match_at d s = Some g"
    using match_at_split[OF assms, of g "d # rest"] assms by (simp add: list_all_iff)
qed

lemma occurs_at_Suc: "occurs_at d (c # cs) (Suc i) g = occurs_at d cs i g"
  by (simp add: occurs_at_def)

lemma occurs_at_Nil: "\<not> occurs_at d [] i g"
  by (simp add: occurs_at_def)

lemma search_Some_iff:
  assumes "\<not> is_digit d"
  shows "pattern_search d s = Some g \<longleftrightarrow>
           (\<exists>i. occurs_at d s i g \<and> (\<forall>j<i. \<forall>g'. \<not> occurs_at d s j g'))"
proof (induction s)
  case Nil
  then show ?case by (simp add: occurs_at_Nil)
next
  case (Cons c cs)
  show ?case
  proof (cases "match_at d (c # cs)")
    case (Some g0)
    then have o0: "occurs_at d (c # cs) 0 g0" by (simp add: match_at_occurs[OF assms])
    have "pattern_search d (c # cs) = Some g0" using Some by simp
    moreover have "(\<exists>i. occurs_at d (c # cs) i g \<and> (\<forall>j<i. \<forall>g'. \<not> occurs_at d (c # cs) j g'))
                     \<longleftrightarrow> g = g0"
    proof
      assume "\<exists>i. occurs_at d (c # cs) i g \<and> (\<forall>j<i. \<forall>g'. \<not> occurs_at d (c # cs) j g')"
      then obtain i where i: "occurs_at d (c # cs) i g" "\<forall>j<i. \<forall>g'. \<not> occurs_at d (c # cs) j g'"
        by blast
      have "i = 0" using i(2) o0 by (cases i) auto
      with i(1) have "match_at d (c # cs) = Some g" by (simp add: match_at_occurs[OF assms])
      with Some show "g = g0" by simp
    next
      assume "g = g0"
      with o0 show "\<exists>i. occurs_at d (c # cs) i g \<and> (\<forall>j<i. \<forall>g'. \<not> occurs_at d (c # cs) j g')"
        by (intro exI[of _ 0]) simp
    qed
    ultimately show ?thesis by auto
  next
    case None
    then have no0: "\<And>g'. \<not> occurs_at d (c # cs) 0 g'"
      by (simp add: match_at_occurs[OF assms, symmetric])
    have "pattern_search d (c # cs) = pattern_search d cs" using None by simp
    moreover have "(\<exists>i. occurs_at d (c # cs) i g \<and> (\<forall>j<i. \<forall>g'. \<not> occurs_at d (c # cs) j g'))
                     \<longleftrightarrow> (\<exists>i. occurs_at d cs i g \<and> (\<forall>j<i. \<forall>g'. \<not> occurs_at d cs j g'))"
    proof
      assume "\<exists>i. occurs_at d (c # cs) i g \<and> (\<forall>j<i. \<forall>g'. \<not> occurs_at d (c # cs) j g')"
      then obtain i where i: "occurs_at d (c # cs) i g" "\<forall>j<i. \<forall>g'. \<not> occurs_at d (c # cs) j g'"
        by blast
      from i(1) no0 obtain k where k: "i = Suc k" by (cases i) auto
      have "occurs_at d cs k g" using i(1) k by (simp add: occurs_at_Suc)
      moreover have "\<forall>j<k. \<forall>g'. \<not> occurs_at d cs j g'"
      proof (intro allI impI)
        fix j g' assume "j < k"
        then have "Suc j < i" using k by simp
        with i(2) have "\<not> occurs_at d (c # cs) (Suc j) g'" by blast
        then show "\<not> occurs_at d cs j g'" by (simp add: occurs_at_Suc)
      qed
      ultimately show "\<exists>i. occurs_at d cs i g \<and> (\<forall>j<i. \<forall>g'. \<not> occurs_at d cs j g')" by blast
    next
      assume "\<exists>i. occurs_at d cs i g \<and> (\<forall>j<i. \<forall>g'. \<not> occurs_at d cs j g')"
      then obtain k where k: "occurs_at d cs k g" "\<forall>j<k. \<forall>g'. \<not> occurs_at d cs j g'"
        by blast
      have "occurs_at d (c # cs) (Suc k) g" using k(1) by (simp add: occurs_at_Suc)
      moreover have "\<forall>j<Suc k. \<forall>g'. \<not> occurs_at d (c # cs) j g'"
      proof (intro allI impI)
        fix j g' assume j: "j < Suc k"
        show "\<not> occurs_at d (c # cs) j g'"
        proof (cases j)
          case 0
          then show ?thesis using no0 by simp
        next
          case (Suc j')
          then show ?thesis using j k(2) by (simp add: occurs_at_Suc)
        qed
      qed
      ultimately show "\<exists>i. occurs_at d (c # cs) i g \<and> (\<forall>j<i. \<forall>g'. \<not> occurs_at d (c # cs) j g')"
        by blast
    qed
    ultimately show ?thesis using Cons.IH by simp
  qed
qed

lemma search_None_iff:
  assumes "\<not> is_digit d"
  shows "pattern_search d s = None \<longleftrightarrow> (\<forall>i g. \<not> occurs_at d s i g)"
proof (induction s)
  case Nil
  then show ?case by (simp add: occurs_at_Nil)
next
  case (Cons c cs)
  show ?case
  proof (cases "match_at d (c # cs)")
    case (Some g0)
    then have "occurs_at d (c # cs) 0 g0" by (simp add: match_at_occurs[OF assms])
    then show ?thesis using Some by auto
  next
    case None
    then have no0: "\<And>g'. \<not> occurs_at d (c # cs) 0 g'"
      by (simp add: match_at_occurs[OF assms, symmetric])
    have "(\<forall>i g. \<not> occurs_at d (c # cs) i g) \<longleftrightarrow> (\<forall>i g. \<not> occurs_at d cs i g)"
    proof
      assume a: "\<forall>i g. \<not> occurs_at d (c # cs) i g"
      show "\<forall>i g. \<not> occurs_at d cs i g"
      proof (intro allI)
        fix i g
        from a have "\<not> occurs_at d (c # cs) (Suc i) g" by blast
        then show "\<not> occurs_at d cs i g" by (simp add: occurs_at_Suc)
      qed
    next
      assume a: "\<forall>i g. \<not> occurs_at d cs i g"
      show "\<forall>i g. \<not> occurs_at d (c # cs) i g"
      proof (intro allI)
        fix i g
        show "\<not> occurs_at d (c # cs) i g"
          using no0 a by (cases i) (simp_all add: occurs_at_Suc)
      qed
    qed
    then show ?thesis using None Cons.IH by simp
  qed
qed

lemma designators_not_digits:
  "\<not> is_digit hours_pattern" "\<not> is_digit minutes_pattern" "\<not> is_digit seconds_pattern"
  by (simp_all add: is_digit_def hours_pattern_def minutes_pattern_def seconds_pattern_def)

lemma match_at_nondigit: "\<not> is_digit c \<Longrightarrow> match_at d (c # cs) = None"
  by (simp add: match_at_def)

lemma search_nondigit: "\<not> is_digit c \<Longrightarrow> pattern_search d (c # cs) = pattern_search d cs"
  by (simp add: match_at_nondigit)

lemma search_hit:
  assumes "\<not> is_digit d" "ds \<noteq> []" "\<forall>c\<in>set ds. is_digit c"
  shows "pattern_search d (ds @ d # rest) = Some ds"
proof -
  have "match_at d (ds @ d # rest) = Some ds"
    using match_at_split[OF assms(1,3), of "d # rest"] assms(1,2) by simp
  then show ?thesis using assms(2) by (cases ds) simp_all
qed

lemma search_miss:
  assumes "\<not> is_digit d" "\<forall>c\<in>set ds. is_digit c" "\<not> is_digit c" "c \<noteq> d"
  shows "pattern_search d (ds @ c # rest) = pattern_search d rest"
  using assms(2)
proof (induction ds)
  case Nil
  then show ?case using assms(3) by (simp add: match_at_nondigit)
next
  case (Cons x xs)
  have "match_at d ((x # xs) @ c # rest) = None"
    using match_at_split[OF assms(1), of "x # xs" "c # rest"] Cons.prems assms(3,4) by simp
  then show ?case using Cons by simp
qed

lemma search_result_digits:
  assumes "\<not> is_digit d" "pattern_search d s = Some g"
  shows "g \<noteq> [] \<and> list_all is_digit g"
  using assms by (auto simp: search_Some_iff[OF assms(1)] occurs_at_def)

lemma extract_duration_eq:
  "extract_duration lim item =
     (if number_accepted lim (pattern_search hours_pattern (contentDetails_duration item))
         \<and> number_accepted lim (pattern_search minutes_pattern (contentDetails_duration item))
         \<and> number_accepted lim (pattern_search seconds_pattern (contentDetails_duration item))
      then timedelta_hms
             (number_value (pattern_search hours_pattern (contentDetails_duration item)))
             (number_value (pattern_search minutes_pattern (contentDetails_duration item)))
             (number_value (pattern_search seconds_pattern (contentDetails_duration item)))
      else Inl ValueError)"
  by (simp add: extract_duration_def py_int_def number_accepted_def number_value_def Let_def
      split: option.splits)

lemma search_1M2M: "pattern_search minutes_pattern ''1M2M'' = Some ''1''"
  by (simp add: minutes_pattern_def match_at_def is_digit_def)

section \<open>Claims about the duration patterns\<close>

text \<open>
  Claim C10.  For every input string, each of the hours, minutes and seconds components is
  taken from the leftmost occurrence of its digits-and-designator pattern anywhere in the
  string, independently of the other two components: a search finds the group \<open>g\<close>
  exactly when \<open>g\<close> occurs at some position before which the pattern occurs nowhere, and
  finds nothing exactly when the pattern occurs nowhere; the parser converts the three
  groups found (0 for one not found) and nothing else.  So \<^verbatim>\<open>1M2M\<close> gives 1 minute, not 2,
  and a component standing before \<^verbatim>\<open>PT\<close> is found as well.
\<close>

theorem search_takes_leftmost_occurrence:
  "(d = hours_pattern \<or> d = minutes_pattern \<or> d = seconds_pattern \<longrightarrow>
      (pattern_search d s = Some g \<longleftrightarrow>
         (\<exists>i. occurs_at d s i g \<and> (\<forall>j<i. \<forall>g'. \<not> occurs_at d s j g')))
      \<and> (pattern_search d s = None \<longleftrightarrow> (\<forall>i g'. \<not> occurs_at d s i g')))
   \<and> extract_duration lim \<lparr>snippet_title = t, contentDetails_duration = s\<rparr> =
       (if number_accepted lim (pattern_search hours_pattern s)
           \<and> number_accepted lim (pattern_search minutes_pattern s)
           \<and> number_accepted lim (pattern_search seconds_pattern s)
        then timedelta_hms (number_value (pattern_search hours_pattern s))
               (number_value (pattern_search minutes_pattern s))
               (number_value (pattern_search seconds_pattern s))
        else Inl ValueError)
   \<and> pattern_search minutes_pattern ''1M2M'' = Some ''1''
   \<and> extract_duration lim \<lparr>snippet_title = t, contentDetails_duration = ''1M2M''\<rparr>
       = Inr (Timedelta 60000000)
   \<and> pattern_search minutes_pattern ''7MPT1H2M'' = Some ''7''"
proof -
  have a: "d = hours_pattern \<or> d = minutes_pattern \<or> d = seconds_pattern \<longrightarrow>
      (pattern_search d s = Some g \<longleftrightarrow>
         (\<exists>i. occurs_at d s i g \<and> (\<forall>j<i. \<forall>g'. \<not> occurs_at d s j g')))
      \<and> (pattern_search d s = None \<longleftrightarrow> (\<forall>i g'. \<not> occurs_at d s i g'))"
  proof (rule impI)
    assume "d = hours_pattern \<or> d = minutes_pattern \<or> d = seconds_pattern"
    then have nd: "\<not> is_digit d" using designators_not_digits by auto
    show "(pattern_search d s = Some g \<longleftrightarrow>
         (\<exists>i. occurs_at d s i g \<and> (\<forall>j<i. \<forall>g'. \<not> occurs_at d s j g')))
      \<and> (pattern_search d s = None \<longleftrightarrow> (\<forall>i g'. \<not> occurs_at d s i g'))"
      using search_Some_iff[OF nd, of s g] search_None_iff[OF nd, of s] by simp
  qed
  have b: "pattern_search minutes_pattern ''7MPT1H2M'' = Some ''7''"
    by (simp add: minutes_pattern_def match_at_def is_digit_def)
  have c: "extract_duration lim \<lparr>snippet_title = t, contentDetails_duration = ''1M2M''\<rparr>
       = Inr (Timedelta 60000000)"
    by (simp add: extract_duration_def hours_pattern_def minutes_pattern_def seconds_pattern_def
        match_at_def is_digit_def py_int_def int_accepts_def int_of_digits_def digit_value_def
        timedelta_hms_def new_delta_def td_min_us_def td_max_us_def)
  show ?thesis
    using a b c search_1M2M extract_duration_eq[of lim "\<lparr>snippet_title = t, contentDetails_duration = s\<rparr>"]
    by simp
qed

theorem search_takes_leftmost_occurrence_witness:
  "pattern_search minutes_pattern ''1M2M'' = Some ''1''
   \<and> (\<exists>i. occurs_at minutes_pattern ''1M2M'' i ''1''
          \<and> (\<forall>j<i. \<forall>g'. \<not> occurs_at minutes_pattern ''1M2M'' j g'))
   \<and> extract_duration 4300 \<lparr>snippet_title = ''T'', contentDetails_duration = ''1M2M''\<rparr>
       = Inr (Timedelta 60000000)"
proof -
  note th = search_takes_leftmost_occurrence[of minutes_pattern "''1M2M''" "''1''" 4300 "''T''"]
  have found: "pattern_search minutes_pattern ''1M2M'' = Some ''1''"
    using th by blast
  have "(pattern_search minutes_pattern ''1M2M'' = Some ''1'') =
          (\<exists>i. occurs_at minutes_pattern ''1M2M'' i ''1''
              \<and> (\<forall>j<i. \<forall>g'. \<not> occurs_at minutes_pattern ''1M2M'' j g'))"
    using th by blast
  with found have "\<exists>i. occurs_at minutes_pattern ''1M2M'' i ''1''
              \<and> (\<forall>j<i. \<forall>g'. \<not> occurs_at minutes_pattern ''1M2M'' j g')"
    by blast
  moreover have "extract_duration 4300 \<lparr>snippet_title = ''T'', contentDetails_duration = ''1M2M''\<rparr>
       = Inr (Timedelta 60000000)"
    using th by blast
  ultimately show ?thesis using found by blast
qed

section \<open>Numbers and their digits\<close>

lemma is_digit_iff: "is_digit c \<longleftrightarrow> (\<exists>k<10. c = digit_char k)"
proof
  assume "is_digit c"
  then consider "c = CHR ''0''" | "c = CHR ''1''" | "c = CHR ''2''" | "c = CHR ''3''"
    | "c = CHR ''4''" | "c = CHR ''5''" | "c = CHR ''6''" | "c = CHR ''7''" | "c = CHR ''8''"
    | "c = CHR ''9''"
    by (auto simp: is_digit_def)
  then show "\<exists>k<10. c = digit_char k"
  proof cases
    case 1 then show ?thesis by (intro exI[of _ 0]) (simp add: digit_char_def) next
    case 2 then show ?thesis by (intro exI[of _ 1]) (simp add: digit_char_def) next
    case 3 then show ?thesis by (intro exI[of _ 2]) (simp add: digit_char_def) next
    case 4 then show ?thesis by (intro exI[of _ 3]) (simp add: digit_char_def) next
    case 5 then show ?thesis by (intro exI[of _ 4]) (simp add: digit_char_def) next
    case 6 then show ?thesis by (intro exI[of _ 5]) (simp add: digit_char_def) next
    case 7 then show ?thesis by (intro exI[of _ 6]) (simp add: digit_char_def) next
    case 8 then show ?thesis by (intro exI[of _ 7]) (simp add: digit_char_def) next
    case 9 then show ?thesis by (intro exI[of _ 8]) (simp add: digit_char_def) next
    case 10 then show ?thesis by (intro exI[of _ 9]) (simp add: digit_char_def)
  qed
next
  assume "\<exists>k<10. c = digit_char k"
  then obtain k where k: "k < 10" "c = digit_char k" by blast
  then have "k \<in> {0, 1, 2, 3, 4, 5, 6, 7, 8, 9}" by auto
  then show "is_digit c" using k(2) by (auto simp: is_digit_def digit_char_def)
qed

lemma digit_value_digit_char: "k < 10 \<Longrightarrow> digit_value (digit_char k) = int k"
proof -
  assume "k < 10"
  then have "k \<in> {0, 1, 2, 3, 4, 5, 6, 7, 8, 9}" by auto
  then show ?thesis by (auto simp: digit_value_def digit_char_def)
qed

lemma is_digit_digit_char: "k < 10 \<Longrightarrow> is_digit (digit_char k)"
  by (auto simp: is_digit_iff)

lemma digit_value_range: "is_digit c \<Longrightarrow> 0 \<le> digit_value c \<and> digit_value c \<le> 9"
  by (auto simp: is_digit_iff digit_value_digit_char)

lemma int_of_digits_snoc: "int_of_digits (ds @ [c]) = 10 * int_of_digits ds + digit_value c"
  by (simp add: int_of_digits_def)

lemma int_of_digits_nonneg: "list_all is_digit ds \<Longrightarrow> 0 \<le> int_of_digits ds"
proof (induction ds rule: rev_induct)
  case Nil
  then show ?case by (simp add: int_of_digits_def)
next
  case (snoc c ds)
  then show ?case using digit_value_range[of c] by (simp add: int_of_digits_snoc)
qed

lemma str_nat_digits: "list_all is_digit (str_nat n)"
proof (induction n rule: str_nat.induct)
  case (1 n)
  show ?case
  proof (cases "n < 10")
    case True
    then show ?thesis by (subst str_nat.simps) (simp add: is_digit_digit_char)
  next
    case False
    then show ?thesis using 1 by (subst str_nat.simps) (simp add: is_digit_digit_char)
  qed
qed

lemma str_nat_nonempty: "str_nat n \<noteq> []"
  by (subst str_nat.simps) simp

lemma int_of_str_nat: "int_of_digits (str_nat n) = int n"
proof (induction n rule: str_nat.induct)
  case (1 n)
  show ?case
  proof (cases "n < 10")
    case True
    then show ?thesis
      by (subst str_nat.simps) (simp add: int_of_digits_def digit_value_digit_char)
  next
    case False
    then have "int_of_digits (str_nat n) = 10 * int (n div 10) + int (n mod 10)"
      using 1 by (subst str_nat.simps) (simp add: int_of_digits_snoc digit_value_digit_char)
    moreover have "int n = 10 * int (n div 10) + int (n mod 10)"
    proof -
      have "int n = int (10 * (n div 10) + n mod 10)" by (simp only: mult_div_mod_eq)
      then show ?thesis by (simp only: of_nat_add of_nat_mult of_nat_numeral)
    qed
    ultimately show ?thesis by simp
  qed
qed

lemma str_nat_one_digit: "n < 10 \<Longrightarrow> str_nat n = [digit_char n]"
  by (subst str_nat.simps) simp

lemma str_nat_two_digits:
  "10 \<le> n \<Longrightarrow> n < 100 \<Longrightarrow> str_nat n = [digit_char (n div 10), digit_char (n mod 10)]"
  by (subst str_nat.simps) (simp add: str_nat_one_digit)

section \<open>Durations of the grammar\<close>

lemma number_value_nonneg: "is_number n \<Longrightarrow> 0 \<le> number_value n"
  by (cases n) (simp_all add: is_number_def number_value_def int_of_digits_nonneg)

lemma search_component_last:
  assumes "\<not> is_digit d" "\<not> is_digit c" "is_number n"
  shows "pattern_search d (component n c) = (if c = d then n else None)"
proof (cases n)
  case None
  then show ?thesis by (simp add: component_def)
next
  case (Some ds)
  then have ds: "ds \<noteq> []" "\<forall>x\<in>set ds. is_digit x"
    using assms(3) by (simp_all add: is_number_def list_all_iff)
  show ?thesis
  proof (cases "c = d")
    case True
    then show ?thesis using search_hit[OF assms(1) ds, of "[]"] Some by (simp add: component_def)
  next
    case False
    then show ?thesis
      using search_miss[OF assms(1) ds(2) assms(2), of "[]"] Some by (simp add: component_def)
  qed
qed

lemma search_component_first:
  assumes "\<not> is_digit d" "\<not> is_digit c" "is_number n"
  shows "pattern_search d (component n c @ rest) =
           (if c = d \<and> n \<noteq> None then n else pattern_search d rest)"
proof (cases n)
  case None
  then show ?thesis by (simp add: component_def)
next
  case (Some ds)
  then have ds: "ds \<noteq> []" "\<forall>x\<in>set ds. is_digit x"
    using assms(3) by (simp_all add: is_number_def list_all_iff)
  show ?thesis
  proof (cases "c = d")
    case True
    then show ?thesis using search_hit[OF assms(1) ds, of rest] Some by (simp add: component_def)
  next
    case False
    then show ?thesis
      using search_miss[OF assms(1) ds(2) assms(2), of rest] Some by (simp add: component_def)
  qed
qed

lemma search_duration_string:
  assumes "is_number h" "is_number m" "is_number s"
  shows "pattern_search hours_pattern (duration_string h m s) = h"
    and "pattern_search minutes_pattern (duration_string h m s) = m"
    and "pattern_search seconds_pattern (duration_string h m s) = s"
proof -
  have nd: "\<not> is_digit CHR ''H''" "\<not> is_digit CHR ''M''" "\<not> is_digit CHR ''S''"
    by (simp_all add: is_digit_def)
  show "pattern_search hours_pattern (duration_string h m s) = h"
    unfolding duration_string_def hours_pattern_def
    by (simp add: search_component_first[OF nd(1) nd(1) assms(1)]
        search_component_first[OF nd(1) nd(2) assms(2)]
        search_component_last[OF nd(1) nd(3) assms(3)])
  show "pattern_search minutes_pattern (duration_string h m s) = m"
    unfolding duration_string_def minutes_pattern_def
    by (simp add: search_component_first[OF nd(2) nd(1) assms(1)]
        search_component_first[OF nd(2) nd(2) assms(2)]
        search_component_last[OF nd(2) nd(3) assms(3)])
  show "pattern_search seconds_pattern (duration_string h m s) = s"
    unfolding duration_string_def seconds_pattern_def
    by (simp add: search_component_first[OF nd(3) nd(1) assms(1)]
        search_component_first[OF nd(3) nd(2) assms(2)]
        search_component_last[OF nd(3) nd(3) assms(3)])
qed

lemma timedelta_hms_nonneg:
  assumes "0 \<le> h" "0 \<le> m" "0 \<le> s"
  shows "timedelta_hms h m s =
           (if h * 3600 + m * 60 + s \<le> td_max_seconds
            then Inr (Timedelta ((h * 3600 + m * 60 + s) * 1000000)) else Inl OverflowError)"
  using assms
  by (simp add: timedelta_hms_def new_delta_def td_min_us_def td_max_us_def td_max_seconds_def)

section \<open>Claims about the duration parser\<close>

lemma extract_duration_grammar:
  assumes "is_number h" "is_number m" "is_number s"
  shows "extract_duration lim \<lparr>snippet_title = t, contentDetails_duration = duration_string h m s\<rparr> =
           (if number_accepted lim h \<and> number_accepted lim m \<and> number_accepted lim s
            then if number_value h * 3600 + number_value m * 60 + number_value s \<le> td_max_seconds
                 then Inr (Timedelta ((number_value h * 3600 + number_value m * 60
                                         + number_value s) * 1000000))
                 else Inl OverflowError
            else Inl ValueError)"
  using number_value_nonneg[OF assms(1)] number_value_nonneg[OF assms(2)]
    number_value_nonneg[OF assms(3)]
  by (simp add: extract_duration_eq search_duration_string[OF assms] timedelta_hms_nonneg)

lemma duration_string_examples:
  "duration_string (Some ''1'') (Some ''2'') (Some ''3'') = ''1H2M3S''"
  "duration_string None (Some ''5'') None = ''5M''"
  "duration_string None None None = []"
  by (simp_all add: duration_string_def component_def)

lemma short_numbers_accepted: "length ds \<le> 640 \<Longrightarrow> number_accepted lim (Some ds)"
  by (simp add: number_accepted_def int_accepts_def)

text \<open>
  Claim C1 (amended).  For every duration string of the simplified grammar whose digit
  groups the interpreter converts (each has at most 640 digits, or no more than its limit)
  and whose total \<open>hours * 3600 + minutes * 60 + seconds\<close> is at most 86399999999999 seconds,
  the largest \<^verbatim>\<open>timedelta\<close>, the parser returns the duration of exactly that many seconds,
  an absent component counting 0; beyond that total it raises \<^verbatim>\<open>OverflowError\<close>.  In
  particular \<^verbatim>\<open>1H2M3S\<close> gives 3723 seconds, \<^verbatim>\<open>5M\<close> gives 300 seconds and the empty string
  gives 0 seconds.
\<close>

theorem extract_duration_total_seconds:
  "(is_number h \<and> is_number m \<and> is_number s
      \<and> number_accepted lim h \<and> number_accepted lim m \<and> number_accepted lim s \<longrightarrow>
      extract_duration lim \<lparr>snippet_title = t, contentDetails_duration = duration_string h m s\<rparr> =
        (if number_value h * 3600 + number_value m * 60 + number_value s \<le> td_max_seconds
         then Inr (Timedelta ((number_value h * 3600 + number_value m * 60
                                 + number_value s) * 1000000))
         else Inl OverflowError))
   \<and> extract_duration lim \<lparr>snippet_title = t, contentDetails_duration = ''1H2M3S''\<rparr>
       = Inr (Timedelta (3723 * 1000000))
   \<and> extract_duration lim \<lparr>snippet_title = t, contentDetails_duration = ''5M''\<rparr>
       = Inr (Timedelta (300 * 1000000))
   \<and> extract_duration lim \<lparr>snippet_title = t, contentDetails_duration = []\<rparr>
       = Inr (Timedelta 0)"
proof -
  have n: "is_number (Some ''1'')" "is_number (Some ''2'')" "is_number (Some ''3'')"
    "is_number (Some ''5'')" "is_number None"
    by (simp_all add: is_number_def is_digit_def)
  have v: "number_value (Some ''1'') = 1" "number_value (Some ''2'') = 2"
    "number_value (Some ''3'') = 3" "number_value (Some ''5'') = 5" "number_value None = 0"
    by (simp_all add: number_value_def int_of_digits_def digit_value_def)
  have a: "number_accepted lim (Some ''1'')" "number_accepted lim (Some ''2'')"
    "number_accepted lim (Some ''3'')" "number_accepted lim (Some ''5'')"
    "number_accepted lim None"
    by (simp_all add: number_accepted_def int_accepts_def)
  have e1: "extract_duration lim \<lparr>snippet_title = t, contentDetails_duration = ''1H2M3S''\<rparr>
       = Inr (Timedelta (3723 * 1000000))"
    using extract_duration_grammar[OF n(1) n(2) n(3), of lim t]
    by (simp add: v a duration_string_examples td_max_seconds_def)
  have e2: "extract_duration lim \<lparr>snippet_title = t, contentDetails_duration = ''5M''\<rparr>
       = Inr (Timedelta (300 * 1000000))"
    using extract_duration_grammar[OF n(5) n(4) n(5), of lim t]
    by (simp add: v a duration_string_examples td_max_seconds_def)
  have e3: "extract_duration lim \<lparr>snippet_title = t, contentDetails_duration = []\<rparr>
       = Inr (Timedelta 0)"
    using extract_duration_grammar[OF n(5) n(5) n(5), of lim t]
    by (simp add: v a duration_string_examples td_max_seconds_def)
  show ?thesis
    using e1 e2 e3 extract_duration_grammar[of h m s lim t] by simp
qed

theorem extract_duration_total_seconds_witness:
  "is_number (Some ''10'') \<and> is_number (Some ''90'') \<and> is_number None
   \<and> number_accepted 4300 (Some ''10'') \<and> number_accepted 4300 (Some ''90'')
   \<and> number_accepted 4300 None
   \<and> duration_string (Some ''10'') (Some ''90'') None = ''10H90M''
   \<and> extract_duration 4300 \<lparr>snippet_title = ''T'', contentDetails_duration = ''10H90M''\<rparr>
       = Inr (Timedelta (41400 * 1000000))"
proof -
  have n: "is_number (Some ''10'') \<and> is_number (Some ''90'') \<and> is_number None"
    by (simp add: is_number_def is_digit_def)
  have a: "number_accepted 4300 (Some ''10'') \<and> number_accepted 4300 (Some ''90'')
    \<and> number_accepted 4300 None"
    by (simp add: number_accepted_def int_accepts_def)
  have d: "duration_string (Some ''10'') (Some ''90'') None = ''10H90M''"
    by (simp add: duration_string_def component_def)
  have v: "number_value (Some ''10'') = 10" "number_value (Some ''90'') = 90"
    "number_value None = 0"
    by (simp_all add: number_value_def int_of_digits_def digit_value_def)
  have "extract_duration 4300 \<lparr>snippet_title = ''T'', contentDetails_duration = ''10H90M''\<rparr>
       = Inr (Timedelta (41400 * 1000000))"
    using extract_duration_total_seconds[of "Some ''10''" "Some ''90''" None 4300 "''T''"] n a
    by (simp add: d v td_max_seconds_def)
  then show ?thesis using n a d by simp
qed

theorem extract_duration_overflow_counterexample:
  "is_number (Some ''24000000000'') \<and> is_number None
   \<and> duration_string (Some ''24000000000'') None None = ''24000000000H''
   \<and> extract_duration 4300 \<lparr>snippet_title = ''T'', contentDetails_duration = ''24000000000H''\<rparr>
       = Inl OverflowError"
proof -
  have n: "is_number (Some ''24000000000'')" "is_number None"
    by (simp_all add: is_number_def is_digit_def)
  have d: "duration_string (Some ''24000000000'') None None = ''24000000000H''"
    by (simp add: duration_string_def component_def)
  have v: "number_value (Some ''24000000000'') = 24000000000" "number_value None = 0"
    by (simp_all add: number_value_def int_of_digits_def digit_value_def)
  have a: "number_accepted 4300 (Some ''24000000000'')" "number_accepted 4300 None"
    by (simp_all add: number_accepted_def int_accepts_def)
  have "extract_duration 4300 \<lparr>snippet_title = ''T'', contentDetails_duration = ''24000000000H''\<rparr>
       = Inl OverflowError"
    using extract_duration_grammar[OF n(1) n(2) n(2), of 4300 "''T''"]
    by (simp add: d v a td_max_seconds_def)
  then show ?thesis using n d by simp
qed

lemma search_value_nonneg:
  assumes "\<not> is_digit d"
  shows "0 \<le> number_value (pattern_search d s)"
proof (cases "pattern_search d s")
  case None
  then show ?thesis by (simp add: number_value_def)
next
  case (Some g)
  then show ?thesis
    using search_result_digits[OF assms Some] by (simp add: number_value_def int_of_digits_nonneg)
qed

lemma extract_duration_cases:
  "extract_duration lim \<lparr>snippet_title = t, contentDetails_duration = s\<rparr> =
     (if number_accepted lim (pattern_search hours_pattern s)
         \<and> number_accepted lim (pattern_search minutes_pattern s)
         \<and> number_accepted lim (pattern_search seconds_pattern s)
      then if number_value (pattern_search hours_pattern s) * 3600
                + number_value (pattern_search minutes_pattern s) * 60
                + number_value (pattern_search seconds_pattern s) \<le> td_max_seconds
           then Inr (Timedelta ((number_value (pattern_search hours_pattern s) * 3600
                  + number_value (pattern_search minutes_pattern s) * 60
                  + number_value (pattern_search seconds_pattern s)) * 1000000))
           else Inl OverflowError
      else Inl ValueError)"
  using search_value_nonneg[OF designators_not_digits(1), of s]
    search_value_nonneg[OF designators_not_digits(2), of s]
    search_value_nonneg[OF designators_not_digits(3), of s]
  by (simp add: extract_duration_eq timedelta_hms_nonneg)

text \<open>
  Claim C9 (amended).  For every input string whatsoever, with or without the leading
  \<^verbatim>\<open>PT\<close>, with extraneous characters or with none of the three patterns in it, the parser
  rejects no shape of string: each component is the number that its search finds, or 0.  It
  returns a duration whenever the interpreter converts the digit groups found (each has at
  most 640 digits, or no more than its limit) and the total
  \<open>hours * 3600 + minutes * 60 + seconds\<close> is at most 86399999999999 seconds.  The only
  exceptions it raises come from the size of the numbers: \<^verbatim>\<open>ValueError\<close> for a digit group
  that is too long, \<^verbatim>\<open>OverflowError\<close> for a total that no \<^verbatim>\<open>timedelta\<close> holds.
\<close>

theorem extract_duration_rejects_no_shape:
  "(number_accepted lim (pattern_search hours_pattern s)
      \<and> number_accepted lim (pattern_search minutes_pattern s)
      \<and> number_accepted lim (pattern_search seconds_pattern s)
      \<and> number_value (pattern_search hours_pattern s) * 3600
          + number_value (pattern_search minutes_pattern s) * 60
          + number_value (pattern_search seconds_pattern s) \<le> td_max_seconds
    \<longrightarrow> (\<exists>d. extract_duration lim \<lparr>snippet_title = t, contentDetails_duration = s\<rparr> = Inr d))
   \<and> (extract_duration lim \<lparr>snippet_title = t, contentDetails_duration = s\<rparr> = Inl e
        \<longrightarrow> e = ValueError
              \<and> \<not> (number_accepted lim (pattern_search hours_pattern s)
                    \<and> number_accepted lim (pattern_search minutes_pattern s)
                    \<and> number_accepted lim (pattern_search seconds_pattern s))
            \<or> e = OverflowError
              \<and> td_max_seconds < number_value (pattern_search hours_pattern s) * 3600
                  + number_value (pattern_search minutes_pattern s) * 60
                  + number_value (pattern_search seconds_pattern s))
   \<and> ((\<forall>c\<in>set s. \<not> is_digit c) \<longrightarrow>
        extract_duration lim \<lparr>snippet_title = t, contentDetails_duration = s\<rparr>
          = Inr (Timedelta 0))"
proof -
  have none: "pattern_search d s = None" if "\<forall>c\<in>set s. \<not> is_digit c" for d
    using that by (induction s) (simp_all add: match_at_nondigit)
  have zero: "(\<forall>c\<in>set s. \<not> is_digit c) \<longrightarrow>
        extract_duration lim \<lparr>snippet_title = t, contentDetails_duration = s\<rparr>
          = Inr (Timedelta 0)"
    by (simp add: extract_duration_cases none number_accepted_def number_value_def
        td_max_seconds_def)
  show ?thesis
    using zero by (auto simp: extract_duration_cases split: if_splits)
qed

theorem extract_duration_rejects_no_shape_witness:
  "(\<exists>d. extract_duration 4300
          \<lparr>snippet_title = ''T'', contentDetails_duration = ''xx7M, then 2S!''\<rparr> = Inr d)
   \<and> extract_duration 4300 \<lparr>snippet_title = ''T'', contentDetails_duration = ''no numbers''\<rparr>
     = Inr (Timedelta 0)
   \<and> extract_duration 4300 \<lparr>snippet_title = ''T'', contentDetails_duration = ''x99999999999999Hy''\<rparr>
     \<noteq> Inl ValueError"
proof -
  have nd: "\<forall>c\<in>set ''no numbers''. \<not> is_digit c"
    by (simp add: is_digit_def)
  have a: "extract_duration 4300 \<lparr>snippet_title = ''T'', contentDetails_duration = ''no numbers''\<rparr>
     = Inr (Timedelta 0)"
    using extract_duration_rejects_no_shape[of 4300 "''no numbers''" "''T''"] nd by blast
  have r: "pattern_search hours_pattern ''xx7M, then 2S!'' = None"
    "pattern_search minutes_pattern ''xx7M, then 2S!'' = Some ''7''"
    "pattern_search seconds_pattern ''xx7M, then 2S!'' = Some ''2''"
    by (simp_all add: hours_pattern_def minutes_pattern_def seconds_pattern_def match_at_def
        is_digit_def)
  have ok: "number_accepted 4300 (pattern_search hours_pattern ''xx7M, then 2S!'')
      \<and> number_accepted 4300 (pattern_search minutes_pattern ''xx7M, then 2S!'')
      \<and> number_accepted 4300 (pattern_search seconds_pattern ''xx7M, then 2S!'')
      \<and> number_value (pattern_search hours_pattern ''xx7M, then 2S!'') * 3600
          + number_value (pattern_search minutes_pattern ''xx7M, then 2S!'') * 60
          + number_value (pattern_search seconds_pattern ''xx7M, then 2S!'') \<le> td_max_seconds"
    unfolding r
    by (simp add: number_accepted_def int_accepts_def number_value_def int_of_digits_def
        digit_value_def td_max_seconds_def)
  have b: "\<exists>d. extract_duration 4300
          \<lparr>snippet_title = ''T'', contentDetails_duration = ''xx7M, then 2S!''\<rparr> = Inr d"
    using extract_duration_rejects_no_shape[of 4300 "''xx7M, then 2S!''" "''T''"] ok by blast
  have s: "pattern_search hours_pattern ''x99999999999999Hy'' = Some ''99999999999999''"
    "pattern_search minutes_pattern ''x99999999999999Hy'' = None"
    "pattern_search seconds_pattern ''x99999999999999Hy'' = None"
    by (simp_all add: hours_pattern_def minutes_pattern_def seconds_pattern_def match_at_def
        is_digit_def)
  have acc: "number_accepted 4300 (pattern_search hours_pattern ''x99999999999999Hy'')
      \<and> number_accepted 4300 (pattern_search minutes_pattern ''x99999999999999Hy'')
      \<and> number_accepted 4300 (pattern_search seconds_pattern ''x99999999999999Hy'')"
    unfolding s by (simp add: number_accepted_def int_accepts_def)
  have c: "extract_duration 4300 \<lparr>snippet_title = ''T'', contentDetails_duration = ''x99999999999999Hy''\<rparr>
     \<noteq> Inl ValueError"
    using extract_duration_rejects_no_shape[of 4300 "''x99999999999999Hy''" "''T''" ValueError] acc
    by blast
  show ?thesis using a b c by blast
qed

theorem extract_duration_raises_counterexample:
  "extract_duration 4300 \<lparr>snippet_title = ''T'', contentDetails_duration = ''x99999999999999Hy''\<rparr>
     = Inl OverflowError"
  by (simp add: extract_duration_def hours_pattern_def minutes_pattern_def seconds_pattern_def
      match_at_def is_digit_def py_int_def int_accepts_def int_of_digits_def digit_value_def
      timedelta_hms_def new_delta_def td_min_us_def td_max_us_def)

section \<open>Sums of durations\<close>

lemma sum_from_running:
  assumes "\<forall>k\<le>length ds. 1 \<le> k \<longrightarrow>
             td_min_us \<le> total_us start + (\<Sum>d\<leftarrow>take k ds. total_us d)
             \<and> total_us start + (\<Sum>d\<leftarrow>take k ds. total_us d) \<le> td_max_us"
  shows "sum_from start ds = Inr (Timedelta (total_us start + (\<Sum>d\<leftarrow>ds. total_us d)))"
  using assms
proof (induction ds arbitrary: start)
  case Nil
  then show ?case by simp
next
  case (Cons d ds)
  have first: "td_min_us \<le> total_us start + total_us d \<and> total_us start + total_us d \<le> td_max_us"
    using Cons.prems[rule_format, of 1] by simp
  then have step: "td_add start d = Inr (Timedelta (total_us start + total_us d))"
    by (simp add: td_add_def new_delta_def)
  have rest: "\<forall>k\<le>length ds. 1 \<le> k \<longrightarrow>
      td_min_us \<le> total_us (Timedelta (total_us start + total_us d)) + (\<Sum>x\<leftarrow>take k ds. total_us x)
      \<and> total_us (Timedelta (total_us start + total_us d)) + (\<Sum>x\<leftarrow>take k ds. total_us x)
            \<le> td_max_us"
  proof (intro allI impI)
    fix k assume "k \<le> length ds" "1 \<le> k"
    then show "td_min_us \<le> total_us (Timedelta (total_us start + total_us d))
                    + (\<Sum>x\<leftarrow>take k ds. total_us x)
      \<and> total_us (Timedelta (total_us start + total_us d)) + (\<Sum>x\<leftarrow>take k ds. total_us x)
            \<le> td_max_us"
      using Cons.prems[rule_format, of "Suc k"] by (simp add: add.assoc)
  qed
  show ?case using Cons.IH[OF rest] step by (simp add: add.assoc)
qed

lemma sum_list_take_nonneg:
  assumes "\<forall>d\<in>set ds. 0 \<le> total_us d"
  shows "0 \<le> (\<Sum>d\<leftarrow>take k ds. total_us d)
         \<and> (\<Sum>d\<leftarrow>take k ds. total_us d) \<le> (\<Sum>d\<leftarrow>ds. total_us d)"
proof -
  have a: "0 \<le> (\<Sum>d\<leftarrow>take k ds. total_us d)"
    using assms by (intro sum_list_nonneg) (auto dest: in_set_takeD)
  have b: "0 \<le> (\<Sum>d\<leftarrow>drop k ds. total_us d)"
    using assms by (intro sum_list_nonneg) (auto dest: in_set_dropD)
  have "(\<Sum>d\<leftarrow>ds. total_us d)
          = (\<Sum>d\<leftarrow>take k ds. total_us d) + (\<Sum>d\<leftarrow>drop k ds. total_us d)"
    by (metis append_take_drop_id map_append sum_list_append)
  with a b show ?thesis by simp
qed

lemma sum_from_nonneg:
  assumes "\<forall>d\<in>set ds. 0 \<le> total_us d" "(\<Sum>d\<leftarrow>ds. total_us d) \<le> td_max_us"
  shows "sum_from td_zero ds = Inr (Timedelta (\<Sum>d\<leftarrow>ds. total_us d))"
proof -
  have "\<forall>k\<le>length ds. 1 \<le> k \<longrightarrow>
             td_min_us \<le> total_us td_zero + (\<Sum>d\<leftarrow>take k ds. total_us d)
             \<and> total_us td_zero + (\<Sum>d\<leftarrow>take k ds. total_us d) \<le> td_max_us"
  proof (intro allI impI)
    fix k assume "k \<le> length ds" "1 \<le> k"
    have "0 \<le> (\<Sum>d\<leftarrow>take k ds. total_us d)
         \<and> (\<Sum>d\<leftarrow>take k ds. total_us d) \<le> (\<Sum>d\<leftarrow>ds. total_us d)"
      by (rule sum_list_take_nonneg[OF assms(1)])
    with assms(2) show "td_min_us \<le> total_us td_zero + (\<Sum>d\<leftarrow>take k ds. total_us d)
             \<and> total_us td_zero + (\<Sum>d\<leftarrow>take k ds. total_us d) \<le> td_max_us"
      by (simp add: td_zero_def td_min_us_def)
  qed
  from sum_from_running[OF this] show ?thesis by (simp add: td_zero_def)
qed

text \<open>
  Claim C4 (amended).  For every sequence of items whose running totals stay within the
  range of \<^verbatim>\<open>timedelta\<close>, which is so whenever no duration is negative and the total is at
  most \<^verbatim>\<open>timedelta.max\<close>, \<^verbatim>\<open>get_total_duration\<close> returns the sum of the items' durations.
  Zero is the identity: the empty sequence yields the zero duration, and a single item
  yields its own duration.  A two-element sequence \<open>[d1, d2]\<close> of non-negative durations
  yields \<open>d1 + d2\<close> when that is at most \<^verbatim>\<open>timedelta.max\<close>, and raises \<^verbatim>\<open>OverflowError\<close>, as
  \<open>d1 + d2\<close> itself does, when it is not.
\<close>

theorem get_total_duration_sum:
  "((\<forall>k\<le>length items. 1 \<le> k \<longrightarrow>
        td_min_us \<le> (\<Sum>i\<leftarrow>take k items. total_us (duration i))
        \<and> (\<Sum>i\<leftarrow>take k items. total_us (duration i)) \<le> td_max_us)
     \<longrightarrow> get_total_duration items = Inr (Timedelta (\<Sum>i\<leftarrow>items. total_us (duration i))))
   \<and> ((\<forall>i\<in>set items. 0 \<le> total_us (duration i))
        \<and> (\<Sum>i\<leftarrow>items. total_us (duration i)) \<le> td_max_us
     \<longrightarrow> get_total_duration items = Inr (Timedelta (\<Sum>i\<leftarrow>items. total_us (duration i))))
   \<and> get_total_duration [] = Inr td_zero
   \<and> (td_min_us \<le> total_us d \<and> total_us d \<le> td_max_us
        \<longrightarrow> get_total_duration [\<lparr>title = a, url = u, duration = d\<rparr>] = Inr d)
   \<and> (0 \<le> total_us d1 \<and> 0 \<le> total_us d2 \<and> total_us d1 \<le> td_max_us
        \<longrightarrow> get_total_duration [\<lparr>title = a1, url = u1, duration = d1\<rparr>,
                                 \<lparr>title = a2, url = u2, duration = d2\<rparr>]
              = (if total_us d1 + total_us d2 \<le> td_max_us
                 then Inr (Timedelta (total_us d1 + total_us d2)) else Inl OverflowError))"
proof -
  have running: "(\<forall>k\<le>length items. 1 \<le> k \<longrightarrow>
        td_min_us \<le> (\<Sum>i\<leftarrow>take k items. total_us (duration i))
        \<and> (\<Sum>i\<leftarrow>take k items. total_us (duration i)) \<le> td_max_us)
     \<longrightarrow> get_total_duration items = Inr (Timedelta (\<Sum>i\<leftarrow>items. total_us (duration i)))"
  proof
    assume a: "\<forall>k\<le>length items. 1 \<le> k \<longrightarrow>
        td_min_us \<le> (\<Sum>i\<leftarrow>take k items. total_us (duration i))
        \<and> (\<Sum>i\<leftarrow>take k items. total_us (duration i)) \<le> td_max_us"
    have "\<forall>k\<le>length (map duration items). 1 \<le> k \<longrightarrow>
             td_min_us \<le> total_us td_zero + (\<Sum>d\<leftarrow>take k (map duration items). total_us d)
             \<and> total_us td_zero + (\<Sum>d\<leftarrow>take k (map duration items). total_us d) \<le> td_max_us"
      using a by (simp add: td_zero_def take_map comp_def)
    from sum_from_running[OF this]
    show "get_total_duration items = Inr (Timedelta (\<Sum>i\<leftarrow>items. total_us (duration i)))"
      by (simp add: get_total_duration_def td_zero_def comp_def)
  qed
  have nonneg: "(\<forall>i\<in>set items. 0 \<le> total_us (duration i))
        \<and> (\<Sum>i\<leftarrow>items. total_us (duration i)) \<le> td_max_us
     \<longrightarrow> get_total_duration items = Inr (Timedelta (\<Sum>i\<leftarrow>items. total_us (duration i)))"
    using sum_from_nonneg[of "map duration items"]
    by (simp add: get_total_duration_def comp_def)
  have empty: "get_total_duration [] = Inr td_zero"
    by (simp add: get_total_duration_def)
  have single: "td_min_us \<le> total_us d \<and> total_us d \<le> td_max_us
        \<longrightarrow> get_total_duration [\<lparr>title = a, url = u, duration = d\<rparr>] = Inr d"
    by (simp add: get_total_duration_def td_zero_def td_add_def new_delta_def)
  have pair: "0 \<le> total_us d1 \<and> 0 \<le> total_us d2 \<and> total_us d1 \<le> td_max_us
        \<longrightarrow> get_total_duration [\<lparr>title = a1, url = u1, duration = d1\<rparr>,
                                 \<lparr>title = a2, url = u2, duration = d2\<rparr>]
              = (if total_us d1 + total_us d2 \<le> td_max_us
                 then Inr (Timedelta (total_us d1 + total_us d2)) else Inl OverflowError)"
    by (simp add: get_total_duration_def td_zero_def td_add_def new_delta_def td_min_us_def)
  show ?thesis using running nonneg empty single pair by blast
qed

theorem get_total_duration_sum_witness:
  "get_total_duration [\<lparr>title = ''a'', url = ''u'', duration = Timedelta 3600000000\<rparr>,
                       \<lparr>title = ''b'', url = ''v'', duration = Timedelta 1800000000\<rparr>,
                       \<lparr>title = ''c'', url = ''w'', duration = Timedelta 45000000\<rparr>]
     = Inr (Timedelta 5445000000)
   \<and> get_total_duration [\<lparr>title = ''a'', url = ''u'', duration = Timedelta 7\<rparr>]
       = Inr (Timedelta 7)
   \<and> get_total_duration [\<lparr>title = ''a'', url = ''u'', duration = Timedelta 3600000000\<rparr>,
                         \<lparr>title = ''b'', url = ''v'', duration = Timedelta 1800000000\<rparr>]
       = Inr (Timedelta 5400000000)
   \<and> get_total_duration [\<lparr>title = ''a'', url = ''u'', duration = Timedelta 5000000\<rparr>,
                         \<lparr>title = ''b'', url = ''v'', duration = Timedelta (- 3000000)\<rparr>]
       = Inr (Timedelta 2000000)"
proof -
  let ?mixed = "[\<lparr>title = ''a'', url = ''u'', duration = Timedelta 5000000\<rparr>,
                 \<lparr>title = ''b'', url = ''v'', duration = Timedelta (- 3000000)\<rparr>]"
  have "td_min_us \<le> (\<Sum>i\<leftarrow>take k ?mixed. total_us (duration i))
        \<and> (\<Sum>i\<leftarrow>take k ?mixed. total_us (duration i)) \<le> td_max_us" for k
  proof -
    consider "k = 0" | "k = 1" | "2 \<le> k" by linarith
    then show ?thesis
      by cases (simp_all add: td_min_us_def td_max_us_def)
  qed
  then have r: "\<forall>k\<le>length ?mixed. 1 \<le> k \<longrightarrow>
        td_min_us \<le> (\<Sum>i\<leftarrow>take k ?mixed. total_us (duration i))
        \<and> (\<Sum>i\<leftarrow>take k ?mixed. total_us (duration i)) \<le> td_max_us"
    by blast
  have d: "get_total_duration ?mixed = Inr (Timedelta 2000000)"
    using get_total_duration_sum[of ?mixed] r by simp
  let ?items = "[\<lparr>title = ''a'', url = ''u'', duration = Timedelta 3600000000\<rparr>,
                 \<lparr>title = ''b'', url = ''v'', duration = Timedelta 1800000000\<rparr>,
                 \<lparr>title = ''c'', url = ''w'', duration = Timedelta 45000000\<rparr>]"
  have h: "(\<forall>i\<in>set ?items. 0 \<le> total_us (duration i))
        \<and> (\<Sum>i\<leftarrow>?items. total_us (duration i)) \<le> td_max_us"
    by (simp add: td_max_us_def)
  have a: "get_total_duration ?items = Inr (Timedelta 5445000000)"
    using get_total_duration_sum[of ?items] h by simp
  have b: "get_total_duration [\<lparr>title = ''a'', url = ''u'', duration = Timedelta 7\<rparr>]
       = Inr (Timedelta 7)"
    using get_total_duration_sum[of "[]" "Timedelta 7" "''a''" "''u''"]
    by (simp add: td_min_us_def td_max_us_def)
  have c: "get_total_duration [\<lparr>title = ''a'', url = ''u'', duration = Timedelta 3600000000\<rparr>,
                         \<lparr>title = ''b'', url = ''v'', duration = Timedelta 1800000000\<rparr>]
       = Inr (Timedelta 5400000000)"
    using get_total_duration_sum[of "[]" td_zero "''a''" "''u''" "Timedelta 3600000000"
        "Timedelta 1800000000" "''a''" "''u''" "''b''" "''v''"]
    by (simp add: td_max_us_def)
  show ?thesis using a b c d by blast
qed

theorem get_total_duration_overflow_counterexample:
  "get_total_duration
     [\<lparr>title = ''a'', url = ''u'', duration = Timedelta (500000000 * 86400000000)\<rparr>,
      \<lparr>title = ''b'', url = ''v'', duration = Timedelta (500000000 * 86400000000)\<rparr>]
     = Inl OverflowError
   \<and> new_delta (500000000 * 86400000000) = Inr (Timedelta (500000000 * 86400000000))"
  by (simp add: get_total_duration_def td_zero_def td_add_def new_delta_def td_min_us_def
      td_max_us_def)

section \<open>Assembling the items\<close>

lemma create_items_Inr_iff:
  "create_items lim ps = Inr items \<longleftrightarrow>
     list_all2 (\<lambda>p it. create_item lim (fst p) (snd p) = Inr it) ps items"
proof (induction ps arbitrary: items)
  case Nil
  then show ?case by auto
next
  case (Cons p ps)
  obtain d v where p: "p = (d, v)" by (cases p)
  show ?case
  proof (cases "create_item lim d v")
    case (Inl e)
    then show ?thesis using p by (auto simp: list_all2_Cons1)
  next
    case (Inr it)
    show ?thesis
    proof (cases "create_items lim ps")
      case (Inl e)
      then have "\<not> list_all2 (\<lambda>p it. create_item lim (fst p) (snd p) = Inr it) ps its" for its
        using Cons.IH[of its] by simp
      then show ?thesis using p Inr Inl by (auto simp: list_all2_Cons1)
    next
      case (Inr its)
      then have "list_all2 (\<lambda>p it. create_item lim (fst p) (snd p) = Inr it) ps its' \<longleftrightarrow> its' = its"
        for its'
        using Cons.IH[of its'] by auto
      then show ?thesis using p \<open>create_item lim d v = Inr it\<close> Inr
        by (auto simp: list_all2_Cons1)
    qed
  qed
qed

lemma create_items_succeed:
  assumes "\<forall>p\<in>set ps. \<exists>t. extract_duration lim (fst p) = Inr t"
  shows "\<exists>items. create_items lim ps = Inr items"
  using assms
proof (induction ps)
  case Nil
  then show ?case by simp
next
  case (Cons p ps)
  obtain d v where p: "p = (d, v)" by (cases p)
  from Cons.prems p obtain t where t: "extract_duration lim d = Inr t" by auto
  from Cons obtain items where "create_items lim ps = Inr items" by auto
  then show ?case using p t by (simp add: create_item_def)
qed

lemma create_item_Inr_iff:
  "create_item lim d v = Inr it \<longleftrightarrow>
     title it = snippet_title d \<and> url it = ''https://www.youtube.com/watch?v='' @ v
     \<and> extract_duration lim d = Inr (duration it)"
  by (cases "extract_duration lim d"; cases it)
    (auto simp: create_item_def extract_title_def create_link_def)

lemma assemble_items_Inr:
  assumes "assemble_items lim details ids = Inr items"
  shows "length items = min (length details) (length ids)"
    and "\<forall>i<length items. title (items ! i) = snippet_title (details ! i)
            \<and> url (items ! i) = ''https://www.youtube.com/watch?v='' @ ids ! i
            \<and> extract_duration lim (details ! i) = Inr (duration (items ! i))"
proof -
  have l2: "list_all2 (\<lambda>p it. create_item lim (fst p) (snd p) = Inr it) (zip details ids) items"
    using assms by (simp add: assemble_items_def create_items_Inr_iff)
  then show len: "length items = min (length details) (length ids)"
    by (auto dest: list_all2_lengthD)
  show "\<forall>i<length items. title (items ! i) = snippet_title (details ! i)
            \<and> url (items ! i) = ''https://www.youtube.com/watch?v='' @ ids ! i
            \<and> extract_duration lim (details ! i) = Inr (duration (items ! i))"
  proof (intro allI impI)
    fix i assume i: "i < length items"
    then have iz: "i < length (zip details ids)" using len by simp
    have "create_item lim (fst (zip details ids ! i)) (snd (zip details ids ! i)) = Inr (items ! i)"
      using list_all2_nthD[OF l2 iz] .
    then have "create_item lim (details ! i) (ids ! i) = Inr (items ! i)"
      using iz by simp
    then show "title (items ! i) = snippet_title (details ! i)
            \<and> url (items ! i) = ''https://www.youtube.com/watch?v='' @ ids ! i
            \<and> extract_duration lim (details ! i) = Inr (duration (items ! i))"
      by (simp add: create_item_Inr_iff)
  qed
qed

text \<open>
  Claim C3 (amended).  For every pair of input sequences (details, ids), possibly of
  different lengths, in which the parser returns a duration for each detail that has an id
  at its position, the assembly produces a sequence of items of length exactly
  \<open>min (len details) (len ids)\<close>, and whenever the assembly produces a sequence it has that
  length and its \<open>i\<close>-th item pairs the \<open>i\<close>-th detail with the \<open>i\<close>-th id: the title is
  the detail's title, the url is \<^verbatim>\<open>https://www.youtube.com/watch?v=\<close> followed by the id, and
  the duration is what the parser returns for the detail's duration string.
\<close>

theorem assemble_items_zip:
  "((\<forall>d\<in>set (take (length ids) details). \<exists>t. extract_duration lim d = Inr t)
      \<longrightarrow> (\<exists>items. assemble_items lim details ids = Inr items))
   \<and> (assemble_items lim details ids = Inr items
      \<longrightarrow> length items = min (length details) (length ids)
          \<and> (\<forall>i<length items.
                title (items ! i) = snippet_title (details ! i)
                \<and> url (items ! i) = ''https://www.youtube.com/watch?v='' @ ids ! i
                \<and> extract_duration lim (details ! i) = Inr (duration (items ! i))))"
proof -
  have "\<exists>items. assemble_items lim details ids = Inr items"
    if a: "\<forall>d\<in>set (take (length ids) details). \<exists>t. extract_duration lim d = Inr t"
  proof -
    have "\<forall>p\<in>set (zip details ids). \<exists>t. extract_duration lim (fst p) = Inr t"
    proof
      fix p assume "p \<in> set (zip details ids)"
      then obtain i where i: "i < length (zip details ids)" "p = zip details ids ! i"
        by (auto simp: in_set_conv_nth)
      then have "fst p = details ! i" "i < length ids" "i < length details" by simp_all
      then have "fst p \<in> set (take (length ids) details)"
        by (auto simp: in_set_conv_nth intro!: exI[of _ i])
      with a show "\<exists>t. extract_duration lim (fst p) = Inr t" by blast
    qed
    from create_items_succeed[OF this] show ?thesis by (simp add: assemble_items_def)
  qed
  then show ?thesis using assemble_items_Inr[of lim details ids items] by blast
qed

theorem assemble_items_zip_witness:
  "assemble_items 4300
     [\<lparr>snippet_title = ''T1'', contentDetails_duration = ''PT1H''\<rparr>,
      \<lparr>snippet_title = ''T2'', contentDetails_duration = ''PT30M''\<rparr>,
      \<lparr>snippet_title = ''T3'', contentDetails_duration = ''PT24000000000H''\<rparr>]
     [''v1'', ''v2'']
   = Inr [\<lparr>title = ''T1'', url = ''https://www.youtube.com/watch?v=v1'',
             duration = Timedelta 3600000000\<rparr>,
          \<lparr>title = ''T2'', url = ''https://www.youtube.com/watch?v=v2'',
             duration = Timedelta 1800000000\<rparr>]
   \<and> length [\<lparr>title = ''T1'', url = ''https://www.youtube.com/watch?v=v1'',
                duration = Timedelta 3600000000\<rparr>,
             \<lparr>title = ''T2'', url = ''https://www.youtube.com/watch?v=v2'',
                duration = Timedelta 1800000000\<rparr>]
       = min (length [\<lparr>snippet_title = ''T1'', contentDetails_duration = ''PT1H''\<rparr>,
                      \<lparr>snippet_title = ''T2'', contentDetails_duration = ''PT30M''\<rparr>,
                      \<lparr>snippet_title = ''T3'', contentDetails_duration = ''PT24000000000H''\<rparr>])
             (length [''v1'', ''v2''])"
proof -
  let ?details = "[\<lparr>snippet_title = ''T1'', contentDetails_duration = ''PT1H''\<rparr>,
      \<lparr>snippet_title = ''T2'', contentDetails_duration = ''PT30M''\<rparr>,
      \<lparr>snippet_title = ''T3'', contentDetails_duration = ''PT24000000000H''\<rparr>]"
  let ?ids = "[''v1'', ''v2'']"
  have e: "extract_duration 4300 \<lparr>snippet_title = ''T1'', contentDetails_duration = ''PT1H''\<rparr>
             = Inr (Timedelta 3600000000)"
    "extract_duration 4300 \<lparr>snippet_title = ''T2'', contentDetails_duration = ''PT30M''\<rparr>
             = Inr (Timedelta 1800000000)"
    by (simp_all add: extract_duration_def hours_pattern_def minutes_pattern_def
        seconds_pattern_def match_at_def is_digit_def py_int_def int_accepts_def
        int_of_digits_def digit_value_def timedelta_hms_def new_delta_def td_min_us_def
        td_max_us_def)
  have h: "\<forall>d\<in>set (take (length ?ids) ?details). \<exists>t. extract_duration 4300 d = Inr t"
    using e by simp
  from assemble_items_zip[of ?ids ?details 4300] h
  obtain items where items: "assemble_items 4300 ?details ?ids = Inr items" by blast
  from assemble_items_zip[of ?ids ?details 4300 items] items
  have len: "length items = 2"
    and nth: "\<forall>i<length items.
                title (items ! i) = snippet_title (?details ! i)
                \<and> url (items ! i) = ''https://www.youtube.com/watch?v='' @ ?ids ! i
                \<and> extract_duration 4300 (?details ! i) = Inr (duration (items ! i))"
    by simp_all
  from len obtain x y where xy: "items = [x, y]"
    by (cases items; cases "tl items") auto
  have x: "x = \<lparr>title = ''T1'', url = ''https://www.youtube.com/watch?v=v1'',
             duration = Timedelta 3600000000\<rparr>"
    using nth[rule_format, of 0] xy e by (cases x) simp
  have y: "y = \<lparr>title = ''T2'', url = ''https://www.youtube.com/watch?v=v2'',
             duration = Timedelta 1800000000\<rparr>"
    using nth[rule_format, of 1] xy e by (cases y) simp
  show ?thesis using items xy x y by simp
qed

theorem assemble_items_raises_counterexample:
  "assemble_items 4300 [\<lparr>snippet_title = ''T1'', contentDetails_duration = ''PT24000000000H''\<rparr>]
     [''v1'']
   = Inl OverflowError"
  by (simp add: assemble_items_def create_item_def extract_duration_def hours_pattern_def
      minutes_pattern_def seconds_pattern_def match_at_def is_digit_def py_int_def
      int_accepts_def int_of_digits_def digit_value_def timedelta_hms_def new_delta_def
      td_min_us_def td_max_us_def)

section \<open>The scenario of the specification\<close>

lemma scenario_video_ids:
  "get_video_ids scenario_handler ''PL'' [] =
     Some (Inr [''v1'', ''v2'', ''v3''], [None, Some ''page2''])"
  unfolding get_video_ids_def
  apply (subst video_ids_loop.simps)
  apply (simp add: scenario_handler_def scenario_pages_def falsy_def)
  apply (subst video_ids_loop.simps)
  apply (simp add: scenario_handler_def scenario_pages_def falsy_def)
  done

lemma scenario_video_details:
  "get_video_details scenario_handler [''v1'', ''v2'', ''v3''] asked =
     (Inr scenario_details, asked)"
  by (simp add: get_video_details_def scenario_handler_def)

lemma scenario_assemble:
  "assemble_items lim scenario_details [''v1'', ''v2'', ''v3''] = Inr scenario_items"
  by (simp add: assemble_items_def scenario_details_def scenario_items_def create_item_def
      extract_title_def create_link_def extract_duration_def hours_pattern_def
      minutes_pattern_def seconds_pattern_def match_at_def is_digit_def py_int_def
      int_accepts_def int_of_digits_def digit_value_def timedelta_hms_def new_delta_def
      td_min_us_def td_max_us_def)

lemma scenario_str:
  "str_timedelta (Timedelta 3600000000) = ''1:00:00''"
  "str_timedelta (Timedelta 1800000000) = ''0:30:00''"
  "str_timedelta (Timedelta 45000000) = ''0:00:45''"
  "str_timedelta (Timedelta 5445000000) = ''1:30:45''"
  by code_simp+

lemma scenario_total:
  "append_total scenario_items =
     Inr (scenario_items @
            [\<lparr>title = ''Total Duration'', url = [], duration = Timedelta 5445000000\<rparr>])"
  by (simp add: append_total_def get_total_duration_def scenario_items_def td_zero_def
      td_add_def new_delta_def td_min_us_def td_max_us_def)

lemma scenario_main_md:
  "main lim scenario_handler [] (scenario_args ''md'' False) =
     Some (Inr (''| Title | Duration |\<newline>''
                @ ''| :--- | :---: |\<newline>''
                @ ''| [T1](https://www.youtube.com/watch?v=v1) | 1:00:00 |\<newline>''
                @ ''| [T2](https://www.youtube.com/watch?v=v2) | 0:30:00 |\<newline>''
                @ ''| [T3](https://www.youtube.com/watch?v=v3) | 0:00:45 |\<newline>''
                @ ''\<newline>''),
           [None, Some ''page2''])"
  by (simp add: main_def scenario_args_def scenario_video_ids scenario_video_details
      scenario_assemble print_items_def create_markdown_table_def markdown_row_def
      scenario_items_def scenario_str)

lemma scenario_main_md_total:
  "main lim scenario_handler [] (scenario_args ''md'' True) =
     Some (Inr (''| Title | Duration |\<newline>''
                @ ''| :--- | :---: |\<newline>''
                @ ''| [T1](https://www.youtube.com/watch?v=v1) | 1:00:00 |\<newline>''
                @ ''| [T2](https://www.youtube.com/watch?v=v2) | 0:30:00 |\<newline>''
                @ ''| [T3](https://www.youtube.com/watch?v=v3) | 0:00:45 |\<newline>''
                @ ''| [Total Duration]() | 1:30:45 |\<newline>''
                @ ''\<newline>''),
           [None, Some ''page2''])"
proof -
  have "main lim scenario_handler [] (scenario_args ''md'' True) =
          Some (Inr (print_items ''md''
                       (scenario_items @ [\<lparr>title = ''Total Duration'', url = [],
                                            duration = Timedelta 5445000000\<rparr>])),
                [None, Some ''page2''])"
    by (simp add: main_def scenario_args_def scenario_video_ids scenario_video_details
        scenario_assemble scenario_total)
  then show ?thesis
    by (simp add: print_items_def create_markdown_table_def markdown_row_def
        scenario_items_def scenario_str)
qed

section \<open>The total row\<close>

lemma extract_duration_nonneg:
  assumes "extract_duration lim d = Inr t"
  shows "0 \<le> total_us t"
proof -
  obtain a s where d: "d = \<lparr>snippet_title = a, contentDetails_duration = s\<rparr>"
    by (cases d) simp
  have "0 \<le> number_value (pattern_search hours_pattern s) * 3600
                + number_value (pattern_search minutes_pattern s) * 60
                + number_value (pattern_search seconds_pattern s)"
    using search_value_nonneg[OF designators_not_digits(1), of s]
      search_value_nonneg[OF designators_not_digits(2), of s]
      search_value_nonneg[OF designators_not_digits(3), of s]
    by simp
  then show ?thesis
    using assms unfolding d extract_duration_cases by (auto split: if_splits)
qed

lemma assembled_nonneg:
  assumes "assemble_items lim details ids = Inr items"
  shows "\<forall>i\<in>set items. 0 \<le> total_us (duration i)"
proof
  fix it assume "it \<in> set items"
  then obtain i where i: "i < length items" "it = items ! i" by (auto simp: in_set_conv_nth)
  from assemble_items_Inr(2)[OF assms] i
  have "extract_duration lim (details ! i) = Inr (duration it)" by simp
  then show "0 \<le> total_us (duration it)" by (rule extract_duration_nonneg)
qed

text \<open>
  Claim C5 (amended).  For every assembled item list whose durations sum to at most
  \<^verbatim>\<open>timedelta.max\<close>, when the include-total-duration flag is set, exactly one synthetic row
  is appended at the end, with the title \<^verbatim>\<open>Total Duration\<close>, the empty url, and the sum of
  the durations of the items present before the append (so the total row does not include
  itself), and the items before it are unchanged.  In the two-page scenario with the
  durations \<^verbatim>\<open>PT1H\<close>, \<^verbatim>\<open>PT30M\<close>, \<^verbatim>\<open>PT45S\<close> the appended row renders its duration as
  \<^verbatim>\<open>1:30:45\<close>.
\<close>

theorem append_total_row:
  "(assemble_items lim details ids = Inr items
      \<and> (\<Sum>i\<leftarrow>items. total_us (duration i)) \<le> td_max_us
     \<longrightarrow> append_total items =
           Inr (items @ [\<lparr>title = ''Total Duration'', url = [],
                           duration = Timedelta (\<Sum>i\<leftarrow>items. total_us (duration i))\<rparr>]))
   \<and> main lim scenario_handler [] (scenario_args ''md'' True) =
       Some (Inr (''| Title | Duration |\<newline>''
                  @ ''| :--- | :---: |\<newline>''
                  @ ''| [T1](https://www.youtube.com/watch?v=v1) | 1:00:00 |\<newline>''
                  @ ''| [T2](https://www.youtube.com/watch?v=v2) | 0:30:00 |\<newline>''
                  @ ''| [T3](https://www.youtube.com/watch?v=v3) | 0:00:45 |\<newline>''
                  @ ''| [Total Duration]() | 1:30:45 |\<newline>''
                  @ ''\<newline>''),
             [None, Some ''page2''])"
proof -
  have "append_total items =
           Inr (items @ [\<lparr>title = ''Total Duration'', url = [],
                           duration = Timedelta (\<Sum>i\<leftarrow>items. total_us (duration i))\<rparr>])"
    if a: "assemble_items lim details ids = Inr items"
      and b: "(\<Sum>i\<leftarrow>items. total_us (duration i)) \<le> td_max_us"
  proof -
    have "\<forall>d\<in>set (map duration items). 0 \<le> total_us d"
      using assembled_nonneg[OF a] by simp
    moreover have "(\<Sum>d\<leftarrow>map duration items. total_us d) \<le> td_max_us"
      using b by (simp add: comp_def)
    ultimately have "sum_from td_zero (map duration items)
        = Inr (Timedelta (\<Sum>d\<leftarrow>map duration items. total_us d))"
      by (rule sum_from_nonneg)
    then show ?thesis by (simp add: append_total_def get_total_duration_def comp_def)
  qed
  then show ?thesis using scenario_main_md_total by blast
qed

theorem append_total_row_witness:
  "assemble_items 4300 scenario_details [''v1'', ''v2'', ''v3''] =
     Inr [\<lparr>title = ''T1'', url = ''https://www.youtube.com/watch?v=v1'',
            duration = Timedelta 3600000000\<rparr>,
          \<lparr>title = ''T2'', url = ''https://www.youtube.com/watch?v=v2'',
            duration = Timedelta 1800000000\<rparr>,
          \<lparr>title = ''T3'', url = ''https://www.youtube.com/watch?v=v3'',
            duration = Timedelta 45000000\<rparr>]
   \<and> append_total
       [\<lparr>title = ''T1'', url = ''https://www.youtube.com/watch?v=v1'',
          duration = Timedelta 3600000000\<rparr>,
        \<lparr>title = ''T2'', url = ''https://www.youtube.com/watch?v=v2'',
          duration = Timedelta 1800000000\<rparr>,
        \<lparr>title = ''T3'', url = ''https://www.youtube.com/watch?v=v3'',
          duration = Timedelta 45000000\<rparr>]
     = Inr [\<lparr>title = ''T1'', url = ''https://www.youtube.com/watch?v=v1'',
              duration = Timedelta 3600000000\<rparr>,
            \<lparr>title = ''T2'', url = ''https://www.youtube.com/watch?v=v2'',
              duration = Timedelta 1800000000\<rparr>,
            \<lparr>title = ''T3'', url = ''https://www.youtube.com/watch?v=v3'',
              duration = Timedelta 45000000\<rparr>,
            \<lparr>title = ''Total Duration'', url = [], duration = Timedelta 5445000000\<rparr>]"
proof -
  have a: "assemble_items 4300 scenario_details [''v1'', ''v2'', ''v3''] = Inr scenario_items"
    by (rule scenario_assemble)
  have b: "(\<Sum>i\<leftarrow>scenario_items. total_us (duration i)) \<le> td_max_us"
    by (simp add: scenario_items_def td_max_us_def)
  have "append_total scenario_items =
           Inr (scenario_items @ [\<lparr>title = ''Total Duration'', url = [],
                  duration = Timedelta (\<Sum>i\<leftarrow>scenario_items. total_us (duration i))\<rparr>])"
    using append_total_row[of 4300 scenario_details "[''v1'', ''v2'', ''v3'']" scenario_items]
      a b by blast
  then show ?thesis using a by (simp add: scenario_items_def)
qed

theorem append_total_overflow_counterexample:
  "assemble_items 4300
     [\<lparr>snippet_title = ''T1'', contentDetails_duration = ''PT12000000000H''\<rparr>,
      \<lparr>snippet_title = ''T2'', contentDetails_duration = ''PT12000000000H''\<rparr>]
     [''v1'', ''v2'']
   = Inr [\<lparr>title = ''T1'', url = ''https://www.youtube.com/watch?v=v1'',
            duration = Timedelta 43200000000000000000\<rparr>,
          \<lparr>title = ''T2'', url = ''https://www.youtube.com/watch?v=v2'',
            duration = Timedelta 43200000000000000000\<rparr>]
   \<and> append_total
       [\<lparr>title = ''T1'', url = ''https://www.youtube.com/watch?v=v1'',
          duration = Timedelta 43200000000000000000\<rparr>,
        \<lparr>title = ''T2'', url = ''https://www.youtube.com/watch?v=v2'',
          duration = Timedelta 43200000000000000000\<rparr>]
     = Inl OverflowError"
  by (simp add: assemble_items_def create_item_def extract_title_def create_link_def
      extract_duration_def hours_pattern_def minutes_pattern_def seconds_pattern_def
      match_at_def is_digit_def py_int_def int_accepts_def int_of_digits_def digit_value_def
      timedelta_hms_def new_delta_def td_min_us_def td_max_us_def append_total_def
      get_total_duration_def td_zero_def td_add_def)

section \<open>Rendering\<close>

lemma foldl_append_rows:
  "foldl (\<lambda>out item. out @ row item) start items = start @ concat (map row items)"
  by (induction items arbitrary: start) simp_all

lemma scenario_main_csv:
  "main lim scenario_handler [] (scenario_args ''csv'' False) =
     Some (Inr (''title,url,duration\<newline>''
                @ [CHR 0x22] @ ''T1'' @ [CHR 0x22] @ '',https://www.youtube.com/watch?v=v1,1:00:00\<newline>''
                @ [CHR 0x22] @ ''T2'' @ [CHR 0x22] @ '',https://www.youtube.com/watch?v=v2,0:30:00\<newline>''
                @ [CHR 0x22] @ ''T3'' @ [CHR 0x22] @ '',https://www.youtube.com/watch?v=v3,0:00:45\<newline>''),
           [None, Some ''page2''])"
  by (simp add: main_def scenario_args_def scenario_video_ids scenario_video_details
      scenario_assemble print_items_def print_csv_def csv_row_def scenario_items_def
      scenario_str)

text \<open>
  Claim C6.  For every sequence of items, the Markdown renderer produces exactly the header
  line \<^verbatim>\<open>| Title | Duration |\<close>, then the alignment line \<^verbatim>\<open>| :--- | :---: |\<close>, then one row
  per item of the form \<^verbatim>\<open>| [<title>](<url>) | <duration> |\<close> in the order of the sequence,
  with the title, the url and the default string form of the duration inserted verbatim;
  the empty url of the total row gives a link with no target.  In the three-video scenario
  (\<^verbatim>\<open>PT1H\<close>, \<^verbatim>\<open>PT30M\<close>, \<^verbatim>\<open>PT45S\<close>) the durations are rendered as \<^verbatim>\<open>1:00:00\<close>, \<^verbatim>\<open>0:30:00\<close>
  and \<^verbatim>\<open>0:00:45\<close>.
\<close>

theorem create_markdown_table_rows:
  "create_markdown_table items =
     ''| Title | Duration |\<newline>'' @ ''| :--- | :---: |\<newline>''
     @ concat (map (\<lambda>item. ''| ['' @ title item @ ''](''  @ url item @ '') | ''
                              @ str_timedelta (duration item) @ '' |\<newline>'') items)
   \<and> create_markdown_table [\<lparr>title = ''Total Duration'', url = [], duration = d\<rparr>] =
       ''| Title | Duration |\<newline>'' @ ''| :--- | :---: |\<newline>''
       @ ''| [Total Duration]() | '' @ str_timedelta d @ '' |\<newline>''
   \<and> main lim scenario_handler [] (scenario_args ''md'' False) =
       Some (Inr (''| Title | Duration |\<newline>''
                  @ ''| :--- | :---: |\<newline>''
                  @ ''| [T1](https://www.youtube.com/watch?v=v1) | 1:00:00 |\<newline>''
                  @ ''| [T2](https://www.youtube.com/watch?v=v2) | 0:30:00 |\<newline>''
                  @ ''| [T3](https://www.youtube.com/watch?v=v3) | 0:00:45 |\<newline>''
                  @ ''\<newline>''),
             [None, Some ''page2''])"
proof -
  have rows: "create_markdown_table xs =
     ''| Title | Duration |\<newline>'' @ ''| :--- | :---: |\<newline>''
     @ concat (map (\<lambda>item. ''| ['' @ title item @ ''](''  @ url item @ '') | ''
                              @ str_timedelta (duration item) @ '' |\<newline>'') xs)" for xs
    unfolding create_markdown_table_def foldl_append_rows
    by (simp add: markdown_row_def)
  have total: "create_markdown_table [\<lparr>title = ''Total Duration'', url = [], duration = d\<rparr>] =
       ''| Title | Duration |\<newline>'' @ ''| :--- | :---: |\<newline>''
       @ ''| [Total Duration]() | '' @ str_timedelta d @ '' |\<newline>''"
    unfolding rows by simp
  show ?thesis using rows[of items] total scenario_main_md[of lim] by blast
qed

theorem create_markdown_table_rows_witness:
  "create_markdown_table
     [\<lparr>title = ''a|b'', url = ''u'', duration = Timedelta 3600000000\<rparr>,
      \<lparr>title = ''Total Duration'', url = [], duration = Timedelta 5445000000\<rparr>]
   = ''| Title | Duration |\<newline>''
     @ ''| :--- | :---: |\<newline>''
     @ ''| [a|b](u) | 1:00:00 |\<newline>''
     @ ''| [Total Duration]() | 1:30:45 |\<newline>''"
  using create_markdown_table_rows[of
      "[\<lparr>title = ''a|b'', url = ''u'', duration = Timedelta 3600000000\<rparr>,
        \<lparr>title = ''Total Duration'', url = [], duration = Timedelta 5445000000\<rparr>]"]
  by (simp add: scenario_str)

text \<open>
  Claim C7.  For every sequence of items, the CSV output consists of the exact header line
  \<^verbatim>\<open>title,url,duration\<close> followed by one line per item of the form
  \<^verbatim>\<open>"<title>",<url>,<duration>\<close> in the order of the sequence, where only the title is
  wrapped in double quotes and the title, the url and the text of the duration are inserted
  with no escaping of a quote, a comma or a pipe in them; so the title \<^verbatim>\<open>A, B\<close> gives the
  line \<^verbatim>\<open>"A, B",<url>,<duration>\<close> with the comma as it is.
\<close>

theorem print_csv_lines:
  "print_items ''csv'' items =
     ''title,url,duration\<newline>''
     @ concat (map (\<lambda>item. [CHR 0x22] @ title item @ [CHR 0x22] @ '','' @ url item @ '',''
                              @ str_timedelta (duration item) @ ''\<newline>'') items)
   \<and> print_items ''csv'' [\<lparr>title = ''A, B'', url = u, duration = d\<rparr>] =
       ''title,url,duration\<newline>''
       @ [CHR 0x22] @ ''A, B'' @ [CHR 0x22] @ '','' @ u @ '','' @ str_timedelta d @ ''\<newline>''
   \<and> main lim scenario_handler [] (scenario_args ''csv'' False) =
       Some (Inr (''title,url,duration\<newline>''
                  @ [CHR 0x22] @ ''T1'' @ [CHR 0x22]
                  @ '',https://www.youtube.com/watch?v=v1,1:00:00\<newline>''
                  @ [CHR 0x22] @ ''T2'' @ [CHR 0x22]
                  @ '',https://www.youtube.com/watch?v=v2,0:30:00\<newline>''
                  @ [CHR 0x22] @ ''T3'' @ [CHR 0x22]
                  @ '',https://www.youtube.com/watch?v=v3,0:00:45\<newline>''),
             [None, Some ''page2''])"
proof -
  have lines: "print_items ''csv'' xs =
     ''title,url,duration\<newline>''
     @ concat (map (\<lambda>item. [CHR 0x22] @ title item @ [CHR 0x22] @ '','' @ url item @ '',''
                              @ str_timedelta (duration item) @ ''\<newline>'') xs)" for xs
    unfolding print_items_def print_csv_def foldl_append_rows
    by (simp add: csv_row_def)
  have comma: "print_items ''csv'' [\<lparr>title = ''A, B'', url = u, duration = d\<rparr>] =
       ''title,url,duration\<newline>''
       @ [CHR 0x22] @ ''A, B'' @ [CHR 0x22] @ '','' @ u @ '','' @ str_timedelta d @ ''\<newline>''"
    unfolding lines by simp
  show ?thesis using lines[of items] comma scenario_main_csv[of lim] by blast
qed

theorem print_csv_lines_witness:
  "print_items ''csv''
     [\<lparr>title = ''A, B'', url = ''https://www.youtube.com/watch?v=v1'',
        duration = Timedelta 3600000000\<rparr>,
      \<lparr>title = [CHR ''x'', CHR 0x22, CHR ''|''], url = ''u'', duration = Timedelta 45000000\<rparr>]
   = ''title,url,duration\<newline>''
     @ [CHR 0x22] @ ''A, B'' @ [CHR 0x22] @ '',https://www.youtube.com/watch?v=v1,1:00:00\<newline>''
     @ [CHR 0x22] @ [CHR ''x'', CHR 0x22, CHR ''|''] @ [CHR 0x22] @ '',u,0:00:45\<newline>''"
  using print_csv_lines[of
      "[\<lparr>title = ''A, B'', url = ''https://www.youtube.com/watch?v=v1'',
          duration = Timedelta 3600000000\<rparr>,
        \<lparr>title = [CHR ''x'', CHR 0x22, CHR ''|''], url = ''u'', duration = Timedelta 45000000\<rparr>]"]
  by (simp add: scenario_str)

section \<open>Fetching the video ids\<close>

lemma serves_Cons:
  assumes "serves handler pid h token (p # ps) h'"
  obtains h1 where
    "playlistItems_list handler h
       \<lparr>part = ''contentDetails'', playlistId = pid, maxResults = 50, pageToken = token\<rparr>
     = (Inr p, h1)"
    and "serves handler pid h1 (nextPageToken p) ps h'"
proof -
  obtain r h1 where e: "playlistItems_list handler h
       \<lparr>part = ''contentDetails'', playlistId = pid, maxResults = 50, pageToken = token\<rparr>
     = (r, h1)"
    by (cases "playlistItems_list handler h
       \<lparr>part = ''contentDetails'', playlistId = pid, maxResults = 50, pageToken = token\<rparr>")
  show ?thesis
  proof (cases r)
    case (Inl err)
    with assms e show ?thesis by simp
  next
    case (Inr q)
    with assms e have "q = p" "serves handler pid h1 (nextPageToken p) ps h'" by simp_all
    with e Inr that show ?thesis by blast
  qed
qed

lemma video_ids_loop_pages:
  assumes "\<forall>p\<in>set ps. \<not> falsy (nextPageToken p)"
    and "falsy (nextPageToken final)"
    and "serves handler pid h token (ps @ [final]) h'"
  shows "video_ids_loop handler pid video_ids token h =
           Some (Inr (video_ids
                        @ concat (map (\<lambda>p. map contentDetails_videoId (pl_items p))
                                    (ps @ [final]))),
                 h')"
  using assms(1,3)
proof (induction ps arbitrary: video_ids token h)
  case Nil
  from Nil.prems(2) have s: "serves handler pid h token (final # []) h'" by simp
  from s obtain h1 where
    e: "playlistItems_list handler h
       \<lparr>part = ''contentDetails'', playlistId = pid, maxResults = 50, pageToken = token\<rparr>
     = (Inr final, h1)"
    and r: "serves handler pid h1 (nextPageToken final) [] h'"
    by (rule serves_Cons)
  from r have "h' = h1" by simp
  then show ?case
    using e assms(2) by (subst video_ids_loop.simps) simp
next
  case (Cons p ps)
  from Cons.prems(2) have s: "serves handler pid h token (p # (ps @ [final])) h'" by simp
  from s obtain h1 where
    e: "playlistItems_list handler h
       \<lparr>part = ''contentDetails'', playlistId = pid, maxResults = 50, pageToken = token\<rparr>
     = (Inr p, h1)"
    and r: "serves handler pid h1 (nextPageToken p) (ps @ [final]) h'"
    by (rule serves_Cons)
  have more: "\<not> falsy (nextPageToken p)" and rest: "\<forall>q\<in>set ps. \<not> falsy (nextPageToken q)"
    using Cons.prems(1) by simp_all
  have "video_ids_loop handler pid video_ids token h =
          video_ids_loop handler pid (video_ids @ map contentDetails_videoId (pl_items p))
            (nextPageToken p) h1"
    using e more by (subst video_ids_loop.simps) simp
  also have "\<dots> = Some (Inr ((video_ids @ map contentDetails_videoId (pl_items p))
                        @ concat (map (\<lambda>p. map contentDetails_videoId (pl_items p))
                                    (ps @ [final]))),
                 h')"
    by (rule Cons.IH[OF rest r])
  finally show ?case by simp
qed

text \<open>
  Claim C2.  For every finite sequence of API pages in which each page but the last carries
  a continuation token and the last page carries none (no token, or the empty one),
  \<^verbatim>\<open>get_video_ids\<close> terminates: asking first without a token and then with the token of the
  page before, it requests exactly those pages in order, leaves the service in the state
  after the last of these requests, and returns the concatenation of the pages' video ids
  in the order in which the API delivered them, nothing reordered, dropped or merged.
\<close>

theorem get_video_ids_concatenates_pages:
  "(\<forall>p\<in>set ps. \<not> falsy (nextPageToken p))
   \<and> falsy (nextPageToken final)
   \<and> serves handler playlist_id h None (ps @ [final]) h'
   \<longrightarrow> get_video_ids handler playlist_id h =
         Some (Inr (concat (map (\<lambda>p. map contentDetails_videoId (pl_items p)) (ps @ [final]))),
               h')"
  using video_ids_loop_pages[of ps final handler playlist_id h None h' "[]"]
  by (simp add: get_video_ids_def)

theorem get_video_ids_concatenates_pages_witness:
  "\<not> falsy (nextPageToken (scenario_pages ! 0))
   \<and> falsy (nextPageToken (scenario_pages ! 1))
   \<and> serves scenario_handler ''PL'' [] None [scenario_pages ! 0, scenario_pages ! 1]
       [None, Some ''page2'']
   \<and> get_video_ids scenario_handler ''PL'' [] =
       Some (Inr [''v1'', ''v2'', ''v3''], [None, Some ''page2''])"
proof -
  have a: "\<forall>p\<in>set [scenario_pages ! 0]. \<not> falsy (nextPageToken p)"
    by (simp add: scenario_pages_def falsy_def)
  have b: "falsy (nextPageToken (scenario_pages ! 1))"
    by (simp add: scenario_pages_def falsy_def)
  have c: "serves scenario_handler ''PL'' [] None ([scenario_pages ! 0] @ [scenario_pages ! 1])
       [None, Some ''page2'']"
    by (simp add: scenario_handler_def scenario_pages_def)
  have "get_video_ids scenario_handler ''PL'' [] =
       Some (Inr (concat (map (\<lambda>p. map contentDetails_videoId (pl_items p))
                            ([scenario_pages ! 0] @ [scenario_pages ! 1]))),
             [None, Some ''page2''])"
    using get_video_ids_concatenates_pages[of "[scenario_pages ! 0]" "scenario_pages ! 1"
        scenario_handler "''PL''" "[]" "[None, Some ''page2'']"] a b c
    by blast
  then have "get_video_ids scenario_handler ''PL'' [] =
       Some (Inr [''v1'', ''v2'', ''v3''], [None, Some ''page2''])"
    by (simp add: scenario_pages_def)
  then show ?thesis using a b c by simp
qed

section \<open>Rendering a duration and reading it back\<close>

lemma str_int_nonneg: "0 \<le> i \<Longrightarrow> str_int i = str_nat (nat i)"
  by (simp add: str_int_def)

lemma zero_pad_2:
  assumes "0 \<le> i" "i < 100"
  shows "zero_pad 2 i = [digit_char (nat i div 10), digit_char (nat i mod 10)]"
proof (cases "i < 10")
  case True
  then have "nat i < 10" using assms by simp
  then have "str_nat (nat i) = [digit_char (nat i)]" "nat i div 10 = 0" "nat i mod 10 = nat i"
    by (simp_all add: str_nat_one_digit)
  then show ?thesis
    using assms by (simp add: zero_pad_def str_int_nonneg digit_char_def)
next
  case False
  then have "10 \<le> nat i" "nat i < 100" using assms by simp_all
  then have "str_nat (nat i) = [digit_char (nat i div 10), digit_char (nat i mod 10)]"
    by (rule str_nat_two_digits)
  then show ?thesis using assms by (simp add: zero_pad_def str_int_nonneg)
qed

lemma str_timedelta_below_day:
  assumes "0 \<le> T" "T < 86400"
  shows "str_timedelta (Timedelta (T * 1000000)) =
           str_nat (nat (T div 3600)) @ '':''
           @ [digit_char (nat (T div 60 mod 60) div 10), digit_char (nat (T div 60 mod 60) mod 10)]
           @ '':''
           @ [digit_char (nat (T mod 60) div 10), digit_char (nat (T mod 60) mod 10)]"
proof -
  have d: "td_days (Timedelta (T * 1000000)) = 0"
    using assms by (simp add: td_days_def)
  have s: "td_seconds (Timedelta (T * 1000000)) = T"
    using assms by (simp add: td_seconds_def)
  have u: "td_microseconds (Timedelta (T * 1000000)) = 0"
    by (simp add: td_microseconds_def)
  have h: "T div 60 div 60 = T div 3600"
    by (simp add: div_mult2_eq[symmetric])
  have hh: "0 \<le> T div 3600" using assms by simp
  have m: "0 \<le> T div 60 mod 60" "T div 60 mod 60 < 100"
    by (simp_all add: pos_mod_bound[THEN less_trans])
  have ss: "0 \<le> T mod 60" "T mod 60 < 100"
    by (simp_all add: pos_mod_bound[THEN less_trans])
  show ?thesis
    unfolding str_timedelta_def Let_def d s u h
    by (simp add: str_int_nonneg[OF hh] zero_pad_2[OF m] zero_pad_2[OF ss])
qed

lemma int_of_two_digits:
  assumes "a < 10" "b < 10"
  shows "int_of_digits [digit_char a, digit_char b] = 10 * int a + int b"
  using assms by (simp add: int_of_digits_def digit_value_digit_char)

lemma parse_hms_rendered:
  assumes "a < 10" "b < 10" "c < 10" "d < 10"
  shows "parse_hms (str_nat n @ '':'' @ [digit_char a, digit_char b] @ '':''
                      @ [digit_char c, digit_char d]) =
           Some (int n * 3600 + (10 * int a + int b) * 60 + (10 * int c + int d))"
proof -
  let ?rest = "'':'' @ [digit_char a, digit_char b] @ '':'' @ [digit_char c, digit_char d]"
  have nd: "\<not> is_digit CHR '':''" by (simp add: is_digit_def)
  have all: "\<forall>x\<in>set (str_nat n). is_digit x"
    using str_nat_digits[of n] by (simp add: list_all_iff)
  have tw: "takeWhile is_digit (str_nat n @ ?rest) = str_nat n"
    using all nd by (simp add: takeWhile_append2)
  have dw: "dropWhile is_digit (str_nat n @ ?rest) = ?rest"
    using all nd by (simp add: dropWhile_append2)
  have "parse_hms (str_nat n @ ?rest) =
          Some (int_of_digits (str_nat n) * 3600
                 + int_of_digits [digit_char a, digit_char b] * 60
                 + int_of_digits [digit_char c, digit_char d])"
    unfolding parse_hms_def Let_def tw dw
    using assms by (simp add: str_nat_nonempty is_digit_digit_char)
  then show ?thesis
    using assms by (simp add: int_of_str_nat int_of_two_digits)
qed

lemma round_trip_below_day:
  assumes "0 \<le> T" "T < 86400"
  shows "parse_hms (str_timedelta (Timedelta (T * 1000000))) = Some T"
proof -
  let ?m = "nat (T div 60 mod 60)" and ?s = "nat (T mod 60)"
  have m: "?m div 10 < 10" "?m mod 10 < 10" by simp_all
  have s: "?s div 10 < 10" "?s mod 10 < 10" by simp_all
  have "parse_hms (str_timedelta (Timedelta (T * 1000000))) =
          Some (int (nat (T div 3600)) * 3600
                 + (10 * int (?m div 10) + int (?m mod 10)) * 60
                 + (10 * int (?s div 10) + int (?s mod 10)))"
    unfolding str_timedelta_below_day[OF assms]
    by (rule parse_hms_rendered[OF m s])
  moreover have "int (nat (T div 3600)) = T div 3600" using assms by simp
  moreover have "10 * int (?m div 10) + int (?m mod 10) = T div 60 mod 60"
  proof -
    have "10 * int (?m div 10) + int (?m mod 10) = int (10 * (?m div 10) + ?m mod 10)"
      by (simp only: of_nat_add of_nat_mult of_nat_numeral)
    also have "\<dots> = int ?m" by (simp only: mult_div_mod_eq)
    also have "\<dots> = T div 60 mod 60" by simp
    finally show ?thesis .
  qed
  moreover have "10 * int (?s div 10) + int (?s mod 10) = T mod 60"
  proof -
    have "10 * int (?s div 10) + int (?s mod 10) = int (10 * (?s div 10) + ?s mod 10)"
      by (simp only: of_nat_add of_nat_mult of_nat_numeral)
    also have "\<dots> = int ?s" by (simp only: mult_div_mod_eq)
    also have "\<dots> = T mod 60" by simp
    finally show ?thesis .
  qed
  moreover have "T div 3600 * 3600 + T div 60 mod 60 * 60 + T mod 60 = T"
  proof -
    have "T div 60 = (T div 60 div 60) * 60 + T div 60 mod 60" by simp
    moreover have "T div 60 div 60 = T div 3600" by (simp add: div_mult2_eq[symmetric])
    ultimately have "T div 60 = T div 3600 * 60 + T div 60 mod 60" by simp
    moreover have "T = T div 60 * 60 + T mod 60" by simp
    ultimately show ?thesis by arith
  qed
  ultimately show ?thesis by simp
qed

text \<open>
  Claim C8 (amended).  For every source duration string of the simplified grammar that
  amounts to less than one day (and whose digit groups the interpreter converts), parsing
  it, rendering the duration in its default string form and reading that field back as
  \<^verbatim>\<open>H:MM:SS\<close> recovers the same total number of seconds, though not necessarily the same
  string.  From one day on the rendered field is no longer of the form \<^verbatim>\<open>H:MM:SS\<close>: it
  starts with \<^verbatim>\<open>N day, \<close> or \<^verbatim>\<open>N days, \<close>.
\<close>

theorem parse_render_round_trip:
  "is_number h \<and> is_number m \<and> is_number s
   \<and> number_accepted lim h \<and> number_accepted lim m \<and> number_accepted lim s
   \<and> number_value h * 3600 + number_value m * 60 + number_value s < 86400
   \<longrightarrow> (\<exists>d. extract_duration lim
                \<lparr>snippet_title = t, contentDetails_duration = duration_string h m s\<rparr> = Inr d
            \<and> parse_hms (str_timedelta d)
                = Some (number_value h * 3600 + number_value m * 60 + number_value s))"
proof
  let ?T = "number_value h * 3600 + number_value m * 60 + number_value s"
  assume a: "is_number h \<and> is_number m \<and> is_number s
   \<and> number_accepted lim h \<and> number_accepted lim m \<and> number_accepted lim s
   \<and> ?T < 86400"
  then have n: "is_number h" "is_number m" "is_number s" by simp_all
  have nonneg: "0 \<le> ?T"
    using number_value_nonneg[OF n(1)] number_value_nonneg[OF n(2)]
      number_value_nonneg[OF n(3)] by simp
  have small: "?T < 86400" using a by simp
  have "extract_duration lim
          \<lparr>snippet_title = t, contentDetails_duration = duration_string h m s\<rparr>
        = Inr (Timedelta (?T * 1000000))"
    using a small by (simp add: extract_duration_grammar[OF n] td_max_seconds_def)
  moreover have "parse_hms (str_timedelta (Timedelta (?T * 1000000))) = Some ?T"
    by (rule round_trip_below_day[OF nonneg small])
  ultimately show "\<exists>d. extract_duration lim
                \<lparr>snippet_title = t, contentDetails_duration = duration_string h m s\<rparr> = Inr d
            \<and> parse_hms (str_timedelta d) = Some ?T"
    by blast
qed

theorem parse_render_round_trip_witness:
  "duration_string (Some ''1'') (Some ''90'') (Some ''5'') = ''1H90M5S''
   \<and> (\<exists>d. extract_duration 4300
             \<lparr>snippet_title = ''T'', contentDetails_duration = ''1H90M5S''\<rparr> = Inr d
          \<and> parse_hms (str_timedelta d) = Some 9005)"
proof -
  have n: "is_number (Some ''1'') \<and> is_number (Some ''90'') \<and> is_number (Some ''5'')"
    by (simp add: is_number_def is_digit_def)
  have acc: "number_accepted 4300 (Some ''1'') \<and> number_accepted 4300 (Some ''90'')
      \<and> number_accepted 4300 (Some ''5'')"
    by (simp add: number_accepted_def int_accepts_def)
  have v: "number_value (Some ''1'') = 1" "number_value (Some ''90'') = 90"
    "number_value (Some ''5'') = 5"
    by (simp_all add: number_value_def int_of_digits_def digit_value_def)
  have d: "duration_string (Some ''1'') (Some ''90'') (Some ''5'') = ''1H90M5S''"
    by (simp add: duration_string_def component_def)
  have small: "number_value (Some ''1'') * 3600 + number_value (Some ''90'') * 60
                 + number_value (Some ''5'') < 86400"
    by (simp add: v)
  from parse_render_round_trip[of "Some ''1''" "Some ''90''" "Some ''5''" 4300 "''T''"]
    n acc small
  have "\<exists>d. extract_duration 4300
             \<lparr>snippet_title = ''T'',
                contentDetails_duration = duration_string (Some ''1'') (Some ''90'') (Some ''5'')\<rparr>
             = Inr d
          \<and> parse_hms (str_timedelta d)
              = Some (number_value (Some ''1'') * 3600 + number_value (Some ''90'') * 60
                        + number_value (Some ''5''))"
    by blast
  then show ?thesis unfolding d v by simp
qed

theorem parse_render_round_trip_counterexample:
  "is_number (Some ''24'') \<and> duration_string (Some ''24'') None None = ''24H''
   \<and> extract_duration 4300 \<lparr>snippet_title = ''T'', contentDetails_duration = ''24H''\<rparr>
       = Inr (Timedelta 86400000000)
   \<and> str_timedelta (Timedelta 86400000000) = ''1 day, 0:00:00''
   \<and> parse_hms ''1 day, 0:00:00'' = None"
proof -
  have a: "is_number (Some ''24'') \<and> duration_string (Some ''24'') None None = ''24H''"
    by (simp add: is_number_def is_digit_def duration_string_def component_def)
  have b: "extract_duration 4300 \<lparr>snippet_title = ''T'', contentDetails_duration = ''24H''\<rparr>
       = Inr (Timedelta 86400000000)"
    by (simp add: extract_duration_def hours_pattern_def minutes_pattern_def seconds_pattern_def
        match_at_def is_digit_def py_int_def int_accepts_def int_of_digits_def digit_value_def
        timedelta_hms_def new_delta_def td_min_us_def td_max_us_def)
  have c: "str_timedelta (Timedelta 86400000000) = ''1 day, 0:00:00''"
    by code_simp
  have d: "parse_hms ''1 day, 0:00:00'' = None"
    by (simp add: parse_hms_def is_digit_def)
  show ?thesis using a b c d by blast
qed

end
